theory Spec2Isabelle
  imports Main
begin

section \<open>Entities of the connection state\<close>

text \<open>
  The classes \<open>User\<close>, \<open>Member\<close>, \<open>Emoji\<close>, \<open>GuildSticker\<close>, \<open>ScheduledEvent\<close>,
  \<open>Message\<close>, \<open>Guild\<close> and the private channel classes live in other modules; here
  they are records holding the attributes that \<open>discord/state.py\<close> reads and writes.
  Snowflake ids are Python ints.
\<close>

record user =
  user_id :: int
  discriminator :: string

record member =
  member_id :: int
  joined_at :: "int option"

record emoji =
  emoji_id :: int

record sticker =
  sticker_id :: int

record scheduled_event =
  event_id :: int
  subscriber_count :: int

text \<open>
  \<open>message_guild\<close> is the id of the guild a message refers to (\<open>None\<close> for a message of
  a private channel); guilds compare by id.
\<close>

record message =
  message_id :: int
  message_guild :: "int option"

record guild =
  guild_id :: int
  chunked :: bool
  large :: bool
  unavailable :: bool
  shard_id :: int
  member_count :: "int option"
  guild_members :: "int \<rightharpoonup> member"
  guild_emojis :: "emoji list"
  guild_stickers :: "sticker list"
  scheduled_events :: "int \<rightharpoonup> scheduled_event"

datatype private_channel =
    DMChannel int "user option"
  | GroupChannel int

fun channel_id :: "private_channel \<Rightarrow> int" where
  "channel_id (DMChannel i r) = i"
| "channel_id (GroupChannel i) = i"

text \<open>
  \<open>isinstance(c, DMChannel) and c.recipient\<close>: the recipient of a direct-message
  channel when it is known.
\<close>

fun dm_recipient :: "private_channel \<Rightarrow> user option" where
  "dm_recipient (DMChannel i r) = r"
| "dm_recipient (GroupChannel i) = None"

subsection \<open>Bounded deque\<close>

text \<open>
  \<open>collections.deque(iterable, maxlen=n)\<close>: the last \<open>n\<close> elements of the iterable are
  kept (all of them when \<open>maxlen\<close> is \<open>None\<close>); \<open>append\<close> drops the oldest element
  when the deque is full.
\<close>

record 'a deque =
  items :: "'a list"
  maxlen :: "nat option"

definition deque_of :: "'a list \<Rightarrow> nat option \<Rightarrow> 'a deque" where
  "deque_of xs cap =
     (case cap of
        None \<Rightarrow> \<lparr> items = xs, maxlen = None \<rparr>
      | Some n \<Rightarrow> \<lparr> items = drop (length xs - n) xs, maxlen = Some n \<rparr>)"

definition deque_append :: "'a deque \<Rightarrow> 'a \<Rightarrow> 'a deque" where
  "deque_append d x = deque_of (items d @ [x]) (maxlen d)"

subsection \<open>Chunk requests and futures\<close>

text \<open>
  The keys of \<open>_chunk_requests\<close> are guild ids (whole-guild backfill) or nonces
  (ad-hoc queries). A future is a cell of the store \<open>futures\<close>, named by its index;
  the waiters of a request are such indices.
\<close>

datatype request_key = GuildKey int | NonceKey string

datatype future_state = Pending | Result "member list" | FutureCancelled

record chunk_request =
  req_guild_id :: int
  req_cache :: bool
  nonce :: string
  buffer :: "member list"
  waiters :: "nat list"

subsection \<open>What the state engine emits\<close>

datatype event =
    Dispatch string "int list"
  | CallHandlers string
  | RequestChunks int string
  | LogWarning string
  | LogDebug string

datatype error = ValueError | RuntimeError | TimeoutError

section \<open>The connection state\<close>

record connection_state =
  max_messages :: "int option"
  chunk_guilds :: bool
  intents_members :: bool
  intents_presences :: bool
  member_cache_joined :: bool
  store_user_caches :: bool
  users :: "int \<rightharpoonup> user"
  emojis :: "int \<rightharpoonup> emoji"
  stickers :: "int \<rightharpoonup> sticker"
  guilds :: "int \<rightharpoonup> guild"
  private_channels :: "(int \<times> private_channel) list"
  private_channels_by_user :: "int \<rightharpoonup> private_channel"
  messages :: "message deque option"
  chunk_requests :: "(request_key \<times> chunk_request) list"
  futures :: "future_state list"
  ready_state :: bool
  ready_task :: bool
  trace :: "event list"

definition dispatch :: "connection_state \<Rightarrow> string \<Rightarrow> int list \<Rightarrow> connection_state" where
  "dispatch st name args = st\<lparr> trace := trace st @ [Dispatch name args] \<rparr>"

definition call_handlers :: "connection_state \<Rightarrow> string \<Rightarrow> connection_state" where
  "call_handlers st key = st\<lparr> trace := trace st @ [CallHandlers key] \<rparr>"

definition log_warning :: "connection_state \<Rightarrow> string \<Rightarrow> connection_state" where
  "log_warning st msg = st\<lparr> trace := trace st @ [LogWarning msg] \<rparr>"

definition log_debug :: "connection_state \<Rightarrow> string \<Rightarrow> connection_state" where
  "log_debug st msg = st\<lparr> trace := trace st @ [LogDebug msg] \<rparr>"

subsection \<open>Construction\<close>

text \<open>
  The options of \<open>ConnectionState.__init__\<close> that the model covers. \<open>opt_max_messages\<close>
  is \<open>None\<close> when the option is absent, \<open>Some None\<close> when it is given as Python's
  \<open>None\<close>, and \<open>Some (Some n)\<close> when it is given as an int. The intents and the member
  cache flags arrive resolved.
\<close>

record options =
  opt_max_messages :: "int option option"
  opt_chunk_guilds_at_startup :: "bool option"
  opt_intents_members :: bool
  opt_intents_presences :: bool
  opt_cache_joined :: bool
  opt_cache_empty :: bool

text \<open>
  \<open>self.max_messages = options.get("max_messages", 1000)\<close>, then the reset of a value
  \<open>\<le> 0\<close> to 1000.
\<close>

definition init_max_messages :: "int option option \<Rightarrow> int option" where
  "init_max_messages opt =
     (let mm = (case opt of None \<Rightarrow> Some 1000 | Some v \<Rightarrow> v)
      in case mm of
           None \<Rightarrow> None
         | Some n \<Rightarrow> if n \<le> 0 then Some 1000 else Some n)"

text \<open>
  \<open>clear\<close> empties the caches; the message deque is rebuilt with \<open>maxlen = max_messages\<close>,
  or is \<open>None\<close> when \<open>max_messages\<close> is \<open>None\<close>. The chunk requests are not touched.
\<close>

definition clear :: "connection_state \<Rightarrow> connection_state" where
  "clear st = st\<lparr>
     users := Map.empty,
     emojis := Map.empty,
     stickers := Map.empty,
     guilds := Map.empty,
     private_channels := [],
     private_channels_by_user := Map.empty,
     messages := (case max_messages st of
                    Some n \<Rightarrow> Some (deque_of [] (Some (nat n)))
                  | None \<Rightarrow> None) \<rparr>"

definition init :: "options \<Rightarrow> error + connection_state" where
  "init opts =
     (let mm = init_max_messages (opt_max_messages opts);
          cg = (case opt_chunk_guilds_at_startup opts of
                  None \<Rightarrow> opt_intents_members opts
                | Some b \<Rightarrow> b)
      in if \<not> opt_intents_members opts \<and> cg then Inl ValueError
         else Inr (clear \<lparr>
           max_messages = mm,
           chunk_guilds = cg,
           intents_members = opt_intents_members opts,
           intents_presences = opt_intents_presences opts,
           member_cache_joined = opt_cache_joined opts,
           store_user_caches = \<not> (\<not> opt_intents_members opts \<or> opt_cache_empty opts),
           users = Map.empty,
           emojis = Map.empty,
           stickers = Map.empty,
           guilds = Map.empty,
           private_channels = [],
           private_channels_by_user = Map.empty,
           messages = None,
           chunk_requests = [],
           futures = [],
           ready_state = False,
           ready_task = False,
           trace = [] \<rparr>))"

subsection \<open>Backfill gating\<close>

definition guild_needs_chunking :: "connection_state \<Rightarrow> guild \<Rightarrow> bool" where
  "guild_needs_chunking st g =
     (chunk_guilds st \<and> \<not> chunked g \<and> \<not> (intents_presences st \<and> \<not> large g))"


section \<open>Entity store\<close>

subsection \<open>Insertion-ordered dictionaries\<close>

text \<open>
  A Python \<open>dict\<close> or \<open>OrderedDict\<close> whose order matters is an association list with
  distinct keys, oldest entry first. \<open>d[k] = v\<close> replaces the value of a key that is
  present and leaves the entry where it is; a new key goes to the end.
\<close>

fun od_set :: "('k \<times> 'v) list \<Rightarrow> 'k \<Rightarrow> 'v \<Rightarrow> ('k \<times> 'v) list" where
  "od_set [] k v = [(k, v)]"
| "od_set ((k', v') # d) k v = (if k' = k then (k, v) # d else (k', v') # od_set d k v)"

definition od_del :: "('k \<times> 'v) list \<Rightarrow> 'k \<Rightarrow> ('k \<times> 'v) list" where
  "od_del d k = filter (\<lambda>(k', v). k' \<noteq> k) d"

definition move_to_end :: "('k \<times> 'v) list \<Rightarrow> 'k \<Rightarrow> ('k \<times> 'v) list" where
  "move_to_end d k =
     (case map_of d k of
        None \<Rightarrow> d
      | Some v \<Rightarrow> od_del d k @ [(k, v)])"

subsection \<open>Users\<close>

text \<open>
  \<open>store_user\<close> is rebound to \<open>create_user\<close> at construction when the members intent is
  off or the member cache flags are empty; \<open>store_user_caches\<close> records which of the
  two is in place. The argument is the user built from the payload.
\<close>

definition store_user :: "connection_state \<Rightarrow> user \<Rightarrow> user \<times> connection_state" where
  "store_user st data =
     (if store_user_caches st then
        (case users st (user_id data) of
           Some u \<Rightarrow> (u, st)
         | None \<Rightarrow>
             if discriminator data \<noteq> ''0000''
             then (data, st\<lparr> users := (users st)(user_id data \<mapsto> data) \<rparr>)
             else (data, st))
      else (data, st))"

subsection \<open>Private channels\<close>

definition get_private_channel ::
  "connection_state \<Rightarrow> int option \<Rightarrow> private_channel option \<times> connection_state" where
  "get_private_channel st cid =
     (case cid of
        None \<Rightarrow> (None, st)
      | Some c \<Rightarrow>
          (case map_of (private_channels st) c of
             None \<Rightarrow> (None, st)
           | Some v \<Rightarrow>
               (Some v, st\<lparr> private_channels := move_to_end (private_channels st) c \<rparr>)))"

definition add_private_channel :: "connection_state \<Rightarrow> private_channel \<Rightarrow> connection_state" where
  "add_private_channel st channel =
     (let pcs = od_set (private_channels st) (channel_id channel) channel;
          st1 = st\<lparr> private_channels := pcs \<rparr>;
          st2 = (if length pcs > 128 then
                   (case pcs of
                      [] \<Rightarrow> st1
                    | (k, to_remove) # rest \<Rightarrow>
                        (case dm_recipient to_remove of
                           Some r \<Rightarrow> st1\<lparr> private_channels := rest,
                                          private_channels_by_user :=
                                            (private_channels_by_user st1)(user_id r := None) \<rparr>
                         | None \<Rightarrow> st1\<lparr> private_channels := rest \<rparr>))
                 else st1)
      in case dm_recipient channel of
           Some r \<Rightarrow> st2\<lparr> private_channels_by_user :=
                            (private_channels_by_user st2)(user_id r \<mapsto> channel) \<rparr>
         | None \<Rightarrow> st2)"

subsection \<open>Guild removal\<close>

definition pop_emojis :: "emoji list \<Rightarrow> (int \<rightharpoonup> emoji) \<Rightarrow> (int \<rightharpoonup> emoji)" where
  "pop_emojis es m = fold (\<lambda>e m. m(emoji_id e := None)) es m"

definition pop_stickers :: "sticker list \<Rightarrow> (int \<rightharpoonup> sticker) \<Rightarrow> (int \<rightharpoonup> sticker)" where
  "pop_stickers ss m = fold (\<lambda>s m. m(sticker_id s := None)) ss m"

definition remove_guild :: "connection_state \<Rightarrow> guild \<Rightarrow> connection_state" where
  "remove_guild st g = st\<lparr>
     guilds := (guilds st)(guild_id g := None),
     emojis := pop_emojis (guild_emojis g) (emojis st),
     stickers := pop_stickers (guild_stickers g) (stickers st) \<rparr>"

text \<open>
  \<open>GUILD_DELETE\<close>: \<open>gid\<close> is \<open>int(data["id"])\<close> and \<open>unav\<close> is
  \<open>data.get("unavailable", False)\<close>.
\<close>

definition parse_guild_delete :: "connection_state \<Rightarrow> int \<Rightarrow> bool \<Rightarrow> connection_state" where
  "parse_guild_delete st gid unav =
     (case guilds st gid of
        None \<Rightarrow> log_debug st ''GUILD_DELETE referencing an unknown guild ID''
      | Some g \<Rightarrow>
          if unav then
            dispatch (st\<lparr> guilds := (guilds st)(gid \<mapsto> g\<lparr> unavailable := True \<rparr>) \<rparr>)
              ''guild_unavailable'' [guild_id g]
          else
            (let st1 = (case messages st of
                          None \<Rightarrow> st
                        | Some d \<Rightarrow>
                            st\<lparr> messages := Some (deque_of
                                  (filter (\<lambda>msg. message_guild msg \<noteq> Some (guild_id g)) (items d))
                                  (map_option nat (max_messages st))) \<rparr>)
             in dispatch (remove_guild st1 g) ''guild_remove'' [guild_id g]))"

section \<open>Member events\<close>

text \<open>
  \<open>GUILD_MEMBER_ADD\<close>: \<open>gid\<close> is \<open>int(data["guild_id"])\<close>, \<open>m\<close> the member built from the
  payload.
\<close>

definition parse_guild_member_add :: "connection_state \<Rightarrow> int \<Rightarrow> member \<Rightarrow> connection_state" where
  "parse_guild_member_add st gid m =
     (case guilds st gid of
        None \<Rightarrow> log_debug st ''GUILD_MEMBER_ADD referencing an unknown guild ID''
      | Some g \<Rightarrow>
          (let g1 = (if member_cache_joined st
                     then g\<lparr> guild_members := (guild_members g)(member_id m \<mapsto> m) \<rparr>
                     else g);
               g2 = (case member_count g1 of
                       Some c \<Rightarrow> g1\<lparr> member_count := Some (c + 1) \<rparr>
                     | None \<Rightarrow> g1)
           in dispatch (st\<lparr> guilds := (guilds st)(gid \<mapsto> g2) \<rparr>)
                ''member_join'' [member_id m]))"

text \<open>
  \<open>GUILD_MEMBER_REMOVE\<close>: \<open>u\<close> is the user of \<open>data["user"]\<close>.
\<close>

definition parse_guild_member_remove :: "connection_state \<Rightarrow> int \<Rightarrow> user \<Rightarrow> connection_state" where
  "parse_guild_member_remove st gid u =
     (let (usr, st0) = store_user st u;
          st3 = (case guilds st0 gid of
                   Some g \<Rightarrow>
                     (let g1 = (case member_count g of
                                  Some c \<Rightarrow> g\<lparr> member_count := Some (c - 1) \<rparr>
                                | None \<Rightarrow> g)
                      in case guild_members g1 (user_id usr) of
                           Some m \<Rightarrow>
                             dispatch
                               (st0\<lparr> guilds := (guilds st0)(gid \<mapsto>
                                      g1\<lparr> guild_members := (guild_members g1)(member_id m := None) \<rparr>) \<rparr>)
                               ''member_remove'' [member_id m]
                         | None \<Rightarrow> st0\<lparr> guilds := (guilds st0)(gid \<mapsto> g1) \<rparr>)
                 | None \<Rightarrow> log_debug st0 ''GUILD_MEMBER_REMOVE referencing an unknown guild ID'')
      in dispatch st3 ''raw_member_remove'' [user_id usr])"

section \<open>Scheduled-event subscriptions\<close>



section \<open>Chunk requests\<close>

text \<open>
  \<open>ChunkRequest.__init__\<close>; the nonce is drawn from \<open>os.urandom\<close> and is an argument
  here.
\<close>

definition ChunkRequest :: "int \<Rightarrow> bool \<Rightarrow> string \<Rightarrow> chunk_request" where
  "ChunkRequest gid cache n =
     \<lparr> req_guild_id = gid, req_cache = cache, nonce = n, buffer = [], waiters = [] \<rparr>"

text \<open>
  The loop body of \<open>add_members\<close>: a cached member whose \<open>joined_at\<close> is set stays.
\<close>

definition merge_member :: "guild \<Rightarrow> member \<Rightarrow> guild" where
  "merge_member g m =
     (case guild_members g (member_id m) of
        None \<Rightarrow> g\<lparr> guild_members := (guild_members g)(member_id m \<mapsto> m) \<rparr>
      | Some existing \<Rightarrow>
          if joined_at existing = None
          then g\<lparr> guild_members := (guild_members g)(member_id m \<mapsto> m) \<rparr>
          else g)"

definition add_members ::
  "connection_state \<Rightarrow> chunk_request \<Rightarrow> member list \<Rightarrow> chunk_request \<times> connection_state" where
  "add_members st request ms =
     (let request1 = request\<lparr> buffer := buffer request @ ms \<rparr>
      in if req_cache request then
           (case guilds st (req_guild_id request) of
              None \<Rightarrow> (request1, st)
            | Some g \<Rightarrow>
                (request1,
                 st\<lparr> guilds := (guilds st)(req_guild_id request \<mapsto>
                        fold (\<lambda>m g. merge_member g m) ms g) \<rparr>))
         else (request1, st))"

definition create_future :: "connection_state \<Rightarrow> nat \<times> connection_state" where
  "create_future st = (length (futures st), st\<lparr> futures := futures st @ [Pending] \<rparr>)"

definition set_result :: "future_state list \<Rightarrow> nat \<Rightarrow> member list \<Rightarrow> future_state list" where
  "set_result fs i b = (if i < length fs \<and> fs ! i = Pending then fs[i := Result b] else fs)"

definition cancel_future :: "future_state list \<Rightarrow> nat \<Rightarrow> future_state list" where
  "cancel_future fs i = (if i < length fs \<and> fs ! i = Pending then fs[i := FutureCancelled] else fs)"

text \<open>\<open>ChunkRequest.done\<close>: every waiter that is not done gets the buffer.\<close>

definition done_request :: "chunk_request \<Rightarrow> future_state list \<Rightarrow> future_state list" where
  "done_request request fs = fold (\<lambda>i fs. set_result fs i (buffer request)) (waiters request) fs"

text \<open>
  The first loop of \<open>process_chunk_requests\<close>: the entries after the loop, the keys to
  remove, and the state (guild caches and futures) after the loop. The nonce of a page
  is \<open>data.get("nonce")\<close>, \<open>None\<close> when the page carries none.
\<close>

fun chunk_loop ::
  "(request_key \<times> chunk_request) list \<Rightarrow> int \<Rightarrow> string option \<Rightarrow> member list \<Rightarrow> bool \<Rightarrow>
   connection_state \<Rightarrow>
   (request_key \<times> chunk_request) list \<times> request_key list \<times> connection_state" where
  "chunk_loop [] gid n ms complete st = ([], [], st)"
| "chunk_loop ((key, request) # rest) gid n ms complete st =
     (if req_guild_id request = gid \<and> Some (nonce request) = n then
        (let (request1, st1) = add_members st request ms;
             st2 = (if complete
                    then st1\<lparr> futures := done_request request1 (futures st1) \<rparr>
                    else st1);
             (entries, removed, st3) = chunk_loop rest gid n ms complete st2
         in ((key, request1) # entries, (if complete then [key] else []) @ removed, st3))
      else
        (let (entries, removed, st3) = chunk_loop rest gid n ms complete st
         in ((key, request) # entries, removed, st3)))"

definition process_chunk_requests ::
  "connection_state \<Rightarrow> int \<Rightarrow> string option \<Rightarrow> member list \<Rightarrow> bool \<Rightarrow> connection_state" where
  "process_chunk_requests st gid n ms complete =
     (let (entries, removed, st1) = chunk_loop (chunk_requests st) gid n ms complete st
      in st1\<lparr> chunk_requests := fold (\<lambda>key d. od_del d key) removed entries \<rparr>)"

subsection \<open>Ad-hoc member queries\<close>

text \<open>
  A page of \<open>GUILD_MEMBERS_CHUNK\<close> as \<open>parse_guild_members_chunk\<close> hands it to
  \<open>process_chunk_requests\<close>.
\<close>

record chunk_page =
  page_guild_id :: int
  page_nonce :: "string option"
  page_members :: "member list"
  page_complete :: bool

definition process_page :: "chunk_page \<Rightarrow> connection_state \<Rightarrow> connection_state" where
  "process_page p st =
     process_chunk_requests st (page_guild_id p) (page_nonce p) (page_members p) (page_complete p)"

definition update_request ::
  "(request_key \<times> chunk_request) list \<Rightarrow> request_key \<Rightarrow> (chunk_request \<Rightarrow> chunk_request) \<Rightarrow>
   (request_key \<times> chunk_request) list" where
  "update_request d key f = map (\<lambda>(k, r). if k = key then (k, f r) else (k, r)) d"

text \<open>
  \<open>query_members\<close> up to its suspension: the request is built and registered under its
  nonce \<open>n\<close>, the chunk request is sent, and \<open>request.wait()\<close> creates a future and
  appends it to the request's waiters. The result is that future and the state.
\<close>

definition query_members_start ::
  "connection_state \<Rightarrow> guild \<Rightarrow> bool \<Rightarrow> string \<Rightarrow> nat \<times> connection_state" where
  "query_members_start st g cache n =
     (let request = ChunkRequest (guild_id g) cache n;
          st1 = st\<lparr> chunk_requests := od_set (chunk_requests st) (NonceKey n) request \<rparr>;
          st2 = st1\<lparr> trace := trace st1 @ [RequestChunks (guild_id g) n] \<rparr>;
          (fut, st3) = create_future st2
      in (fut,
          st3\<lparr> chunk_requests :=
                update_request (chunk_requests st3) (NonceKey n)
                  (\<lambda>r. r\<lparr> waiters := waiters r @ [fut] \<rparr>) \<rparr>))"

text \<open>
  \<open>query_members\<close>. \<open>ws_present\<close> says whether \<open>_get_websocket\<close> returned a websocket,
  \<open>n\<close> is the nonce drawn for the request, and \<open>pages\<close> are the chunk pages that the
  dispatch loop processes while \<open>asyncio.wait_for(request.wait(), timeout=30.0)\<close> is
  suspended. When the future is resolved by then, its result is returned. Otherwise
  \<open>wait_for\<close> cancels the wait, whose \<open>finally\<close> takes the future out of the request's
  waiters, and \<open>TimeoutError\<close> is logged and raised again.
\<close>

definition query_members ::
  "connection_state \<Rightarrow> guild \<Rightarrow> bool \<Rightarrow> bool \<Rightarrow> string \<Rightarrow> chunk_page list \<Rightarrow>
   (error + member list) \<times> connection_state" where
  "query_members st g cache ws_present n pages =
     (if \<not> ws_present then (Inl RuntimeError, st)
      else
        (let (fut, st4) = query_members_start st g cache n;
             st5 = fold process_page pages st4
         in case futures st5 ! fut of
              Result ms \<Rightarrow>
                (Inr ms,
                 st5\<lparr> chunk_requests :=
                   update_request (chunk_requests st5) (NonceKey n)
                     (\<lambda>r. r\<lparr> waiters := remove1 fut (waiters r) \<rparr>) \<rparr>)
            | _ \<Rightarrow>
                (Inl TimeoutError,
                 log_warning
                   (st5\<lparr> futures := cancel_future (futures st5) fut,
                         chunk_requests :=
                           update_request (chunk_requests st5) (NonceKey n)
                             (\<lambda>r. r\<lparr> waiters := remove1 fut (waiters r) \<rparr>) \<rparr>)
                   ''Timed out waiting for chunks'')))"

section \<open>Readiness coordinator\<close>

text \<open>
  \<open>chunk_guild(guild, wait=False)\<close>. A request is created, registered under the guild
  id and sent only when none is registered for the guild; \<open>n\<close> is the nonce drawn for
  it and \<open>send_cancelled\<close> says that the task is cancelled while the send is awaited
  (the result is then \<open>None\<close>). Otherwise a new future of the request is returned.
\<close>

definition chunk_guild ::
  "connection_state \<Rightarrow> guild \<Rightarrow> bool option \<Rightarrow> string \<Rightarrow> bool \<Rightarrow> nat option \<times> connection_state" where
  "chunk_guild st g cache n send_cancelled =
     (let cache1 = (case cache of Some True \<Rightarrow> True | _ \<Rightarrow> member_cache_joined st);
          key = GuildKey (guild_id g);
          (sent, st1) =
            (case map_of (chunk_requests st) key of
               None \<Rightarrow>
                 (True,
                  st\<lparr> chunk_requests :=
                        od_set (chunk_requests st) key (ChunkRequest (guild_id g) cache1 n),
                      trace := trace st @ [RequestChunks (guild_id g) n] \<rparr>)
             | Some request \<Rightarrow> (False, st))
      in if sent \<and> send_cancelled then (None, st1)
         else
           (let (fut, st2) = create_future st1
            in (Some fut,
                st2\<lparr> chunk_requests :=
                      update_request (chunk_requests st2) key
                        (\<lambda>r. r\<lparr> waiters := waiters r @ [fut] \<rparr>) \<rparr>)))"

text \<open>
  What the coordinator meets at its suspension points. Each
  \<open>asyncio.wait_for(self._ready_state.get(), timeout=self.guild_ready_timeout)\<close> yields
  an announced guild, the idle timeout, or the cancellation of the task. An
  announcement carries the nonce and the outcomes of the awaits it leads to: the send of
  \<open>chunk_guild\<close> and the later \<open>asyncio.wait_for(future, timeout=5.0)\<close>. The outcomes
  are those the code handles: a value, a timeout, the cancellation. An exception out of
  the websocket's send belongs to the transport and is not among them. The guild is
  the object as it is announced; what the dispatch loop does to the caches while the
  coordinator is suspended is not part of the script.
\<close>

datatype wait_result = WaitDone | WaitTimeout | WaitCancelled

record announcement =
  ann_guild :: guild
  ann_nonce :: string
  ann_send_cancelled :: bool
  ann_wait :: wait_result

datatype get_result = Got announcement | GetTimeout | GetCancelled

datatype run_status = Finished | Cancelled | Suspended

definition dispatch_guild :: "connection_state \<Rightarrow> guild \<Rightarrow> connection_state" where
  "dispatch_guild st g =
     (if \<not> unavailable g then dispatch st ''guild_available'' [guild_id g]
      else dispatch st ''guild_join'' [guild_id g])"

text \<open>
  The \<open>while True\<close> loop. A script that ends before the idle timeout or a cancellation
  leaves the coordinator suspended in \<open>get\<close>.
\<close>

fun collecting ::
  "connection_state \<Rightarrow> get_result list \<Rightarrow> (guild \<times> nat \<times> wait_result) list \<Rightarrow>
   run_status \<times> (guild \<times> nat \<times> wait_result) list \<times> connection_state" where
  "collecting st [] states = (Suspended, states, st)"
| "collecting st (GetTimeout # rest) states = (Finished, states, st)"
| "collecting st (GetCancelled # rest) states = (Cancelled, states, st)"
| "collecting st (Got a # rest) states =
     (if guild_needs_chunking st (ann_guild a) then
        (case chunk_guild st (ann_guild a) None (ann_nonce a) (ann_send_cancelled a) of
           (None, st1) \<Rightarrow> (Cancelled, states, st1)
         | (Some fut, st1) \<Rightarrow>
             collecting st1 rest (states @ [(ann_guild a, fut, ann_wait a)]))
      else collecting (dispatch_guild st (ann_guild a)) rest states)"

text \<open>The loop over \<open>states\<close>.\<close>

fun draining ::
  "connection_state \<Rightarrow> (guild \<times> nat \<times> wait_result) list \<Rightarrow> run_status \<times> connection_state" where
  "draining st [] = (Finished, st)"
| "draining st ((g, fut, WaitDone) # rest) = draining (dispatch_guild st g) rest"
| "draining st ((g, fut, WaitTimeout) # rest) =
     draining
       (dispatch_guild
          (log_warning (st\<lparr> futures := cancel_future (futures st) fut \<rparr>)
             ''Shard ID timed out waiting for chunks for guild_id'') g)
       rest"
| "draining st ((g, fut, WaitCancelled) # rest) =
     (Cancelled, st\<lparr> futures := cancel_future (futures st) fut \<rparr>)"

text \<open>
  \<open>_delay_ready\<close>: after both loops the queue is deleted; \<open>CancelledError\<close> is
  swallowed, otherwise the ready handlers are called and \<open>ready\<close> is dispatched; the
  \<open>finally\<close> clause resets \<open>_ready_task\<close>.
\<close>

definition delay_ready :: "connection_state \<Rightarrow> get_result list \<Rightarrow> run_status \<times> connection_state" where
  "delay_ready st script =
     (case collecting st script [] of
        (Suspended, states, st1) \<Rightarrow> (Suspended, st1)
      | (Cancelled, states, st1) \<Rightarrow> (Cancelled, st1\<lparr> ready_task := False \<rparr>)
      | (Finished, states, st1) \<Rightarrow>
          (case draining st1 states of
             (Finished, st2) \<Rightarrow>
               (Finished,
                (dispatch (call_handlers (st2\<lparr> ready_state := False \<rparr>) ''ready'') ''ready'' [])
                  \<lparr> ready_task := False \<rparr>)
           | (status, st2) \<Rightarrow> (Cancelled, st2\<lparr> ready_task := False \<rparr>)))"

section \<open>Notions used in the statements\<close>

subsection \<open>Traces\<close>


fun is_request_for :: "int \<Rightarrow> event \<Rightarrow> bool" where
  "is_request_for i (RequestChunks j n) = (j = i)"
| "is_request_for i e = False"

definition emitted :: "connection_state \<Rightarrow> connection_state \<Rightarrow> event list" where
  "emitted st st' = drop (length (trace st)) (trace st')"


text \<open>
  The events that the two loops of the coordinator may emit on a script of announcements.
\<close>

definition loop_event :: "connection_state \<Rightarrow> get_result list \<Rightarrow> event \<Rightarrow> bool" where
  "loop_event st script e =
     ((\<exists>a. Got a \<in> set script \<and> guild_needs_chunking st (ann_guild a) \<and>
           e = RequestChunks (guild_id (ann_guild a)) (ann_nonce a)) \<or>
      (\<exists>i. e = Dispatch ''guild_available'' [i]) \<or>
      (\<exists>i. e = Dispatch ''guild_join'' [i]) \<or>
      (\<exists>s. e = LogWarning s))"

subsection \<open>Sample inputs\<close>

text \<open>A state, a guild and an announcement to evaluate the operations on.\<close>

definition sample_state :: connection_state where
  "sample_state = \<lparr>
     max_messages = Some 1000,
     chunk_guilds = True,
     intents_members = True,
     intents_presences = False,
     member_cache_joined = True,
     store_user_caches = True,
     users = Map.empty,
     emojis = Map.empty,
     stickers = Map.empty,
     guilds = Map.empty,
     private_channels = [],
     private_channels_by_user = Map.empty,
     messages = Some \<lparr> items = [], maxlen = Some 1000 \<rparr>,
     chunk_requests = [],
     futures = [],
     ready_state = True,
     ready_task = True,
     trace = [] \<rparr>"

definition sample_guild :: "int \<Rightarrow> guild" where
  "sample_guild i = \<lparr>
     guild_id = i,
     chunked = False,
     large = True,
     unavailable = False,
     shard_id = 0,
     member_count = Some 2,
     guild_members = Map.empty,
     guild_emojis = [],
     guild_stickers = [],
     scheduled_events = Map.empty \<rparr>"

definition announce :: "guild \<Rightarrow> announcement" where
  "announce g = \<lparr> ann_guild = g, ann_nonce = ''a1'', ann_send_cancelled = False,
                  ann_wait = WaitDone \<rparr>"

subsection \<open>Well-formed caches and requests\<close>

text \<open>
  The message deque as \<open>clear\<close> builds it and \<open>append\<close> keeps it: its capacity is
  \<open>max_messages\<close> and it holds no more than that.
\<close>

definition messages_wf :: "connection_state \<Rightarrow> bool" where
  "messages_wf st =
     (case messages st of
        None \<Rightarrow> True
      | Some d \<Rightarrow>
          maxlen d = map_option nat (max_messages st) \<and>
          (case maxlen d of None \<Rightarrow> True | Some n \<Rightarrow> length (items d) \<le> n))"

text \<open>
  The test of \<open>process_chunk_requests\<close>, the request after a page is buffered, and the
  state after the loop body has run for a request that matches.
\<close>

definition page_matches :: "int \<Rightarrow> string option \<Rightarrow> chunk_request \<Rightarrow> bool" where
  "page_matches gid n request = (req_guild_id request = gid \<and> Some (nonce request) = n)"

definition buffered :: "member list \<Rightarrow> chunk_request \<Rightarrow> chunk_request" where
  "buffered ms request = request\<lparr> buffer := buffer request @ ms \<rparr>"

definition matched_step ::
  "member list \<Rightarrow> bool \<Rightarrow> chunk_request \<Rightarrow> connection_state \<Rightarrow> connection_state" where
  "matched_step ms complete request st =
     (let st1 = snd (add_members st request ms)
      in if complete
         then st1\<lparr> futures := done_request (buffered ms request) (futures st1) \<rparr>
         else st1)"

text \<open>
  The request dict has distinct keys and every waiter is a future of the store.
\<close>

definition requests_wf :: "connection_state \<Rightarrow> bool" where
  "requests_wf st =
     (distinct (map fst (chunk_requests st)) \<and>
      (\<forall>(k, r) \<in> set (chunk_requests st). \<forall>j \<in> set (waiters r). j < length (futures st)))"

text \<open>
  The state of \<open>query_members\<close> when it starts to wait: the request is registered under
  its nonce, the chunk request is sent, and the future of \<open>wait\<close> is the request's waiter.
\<close>

definition query_waiting :: "connection_state \<Rightarrow> guild \<Rightarrow> bool \<Rightarrow> string \<Rightarrow> connection_state" where
  "query_waiting st g cache n =
     st\<lparr> chunk_requests :=
            update_request (od_set (chunk_requests st) (NonceKey n) (ChunkRequest (guild_id g) cache n))
              (NonceKey n) (\<lambda>r. r\<lparr> waiters := waiters r @ [length (futures st)] \<rparr>),
         trace := trace st @ [RequestChunks (guild_id g) n],
         futures := futures st @ [Pending] \<rparr>"

text \<open>
  The query for guild \<open>gid\<close> with nonce \<open>n\<close> is still waiting on the future \<open>fut\<close>: its
  request is registered, \<open>fut\<close> is its only waiter and is pending, and no other
  request has \<open>fut\<close> as a waiter.
\<close>

definition awaiting :: "int \<Rightarrow> string \<Rightarrow> nat \<Rightarrow> connection_state \<Rightarrow> bool" where
  "awaiting gid n fut st =
     (distinct (map fst (chunk_requests st)) \<and>
      (\<exists>r. map_of (chunk_requests st) (NonceKey n) = Some r \<and>
           req_guild_id r = gid \<and> nonce r = n \<and> waiters r = [fut]) \<and>
      fut < length (futures st) \<and> futures st ! fut = Pending \<and>
      (\<forall>(k, r) \<in> set (chunk_requests st). k \<noteq> NonceKey n \<longrightarrow> fut \<notin> set (waiters r)))"

section \<open>Properties\<close>

subsection \<open>Construction\<close>

lemma init_max_messages_cases:
  "init_max_messages opt =
     (case opt of
        None \<Rightarrow> Some 1000
      | Some None \<Rightarrow> None
      | Some (Some n) \<Rightarrow> if n \<le> 0 then Some 1000 else Some n)"
  by (simp add: init_max_messages_def split: option.splits)

lemma init_messages:
  assumes "init opts = Inr st"
  shows "max_messages st = init_max_messages (opt_max_messages opts)"
    and "messages st = (case init_max_messages (opt_max_messages opts) of
                          None \<Rightarrow> None
                        | Some n \<Rightarrow> Some \<lparr> items = [], maxlen = Some (nat n) \<rparr>)"
  using assms
  by (auto simp: init_def clear_def deque_of_def Let_def split: if_splits option.splits)

text \<open>
  C4, as stated, at \<open>max_messages = 0\<close>: the constructed state keeps a message deque of
  capacity 1000, so a value of 0 does not disable the message cache.
\<close>

theorem max_messages_zero_keeps_cache:
  "map_sum id messages
     (init \<lparr> opt_max_messages = Some (Some 0), opt_chunk_guilds_at_startup = None,
             opt_intents_members = True, opt_intents_presences = False,
             opt_cache_joined = True, opt_cache_empty = False \<rparr>)
   = Inr (Some \<lparr> items = [], maxlen = Some 1000 \<rparr>)"
  by (simp add: init_def init_max_messages_def clear_def deque_of_def)

text \<open>
  C4 (amended): at construction an absent \<open>max_messages\<close> gives the capacity 1000; a
  value \<open>\<le> 0\<close>, zero as well as negative, is reset to 1000 and an empty deque of that
  capacity is kept; a positive value is the capacity; the message cache is off (no
  deque) only when the option is given as \<open>None\<close>.
\<close>

theorem max_messages_at_construction:
  assumes "init opts = Inr st"
  shows "(opt_max_messages opts = None \<longrightarrow>
            max_messages st = Some 1000 \<and>
            messages st = Some \<lparr> items = [], maxlen = Some 1000 \<rparr>) \<and>
         (\<forall>n. opt_max_messages opts = Some (Some n) \<and> n \<le> 0 \<longrightarrow>
            max_messages st = Some 1000 \<and>
            messages st = Some \<lparr> items = [], maxlen = Some 1000 \<rparr>) \<and>
         (\<forall>n. opt_max_messages opts = Some (Some n) \<and> 0 < n \<longrightarrow>
            max_messages st = Some n \<and>
            messages st = Some \<lparr> items = [], maxlen = Some (nat n) \<rparr>) \<and>
         (opt_max_messages opts = Some None \<longrightarrow>
            max_messages st = None \<and> messages st = None)"
  using init_messages[OF assms]
  by (auto simp: init_max_messages_cases)

theorem max_messages_at_construction_witness:
  "(\<exists>st. init \<lparr> opt_max_messages = Some (Some (- 5)), opt_chunk_guilds_at_startup = None,
                 opt_intents_members = True, opt_intents_presences = False,
                 opt_cache_joined = True, opt_cache_empty = False \<rparr> = Inr st) \<and>
   map_sum id max_messages
     (init \<lparr> opt_max_messages = Some (Some (- 5)), opt_chunk_guilds_at_startup = None,
             opt_intents_members = True, opt_intents_presences = False,
             opt_cache_joined = True, opt_cache_empty = False \<rparr>) = Inr (Some 1000)"
proof -
  let ?opts = "\<lparr> opt_max_messages = Some (Some (- 5)), opt_chunk_guilds_at_startup = None,
                 opt_intents_members = True, opt_intents_presences = False,
                 opt_cache_joined = True, opt_cache_empty = False \<rparr>"
  obtain st where st: "init ?opts = Inr st"
    by (simp add: init_def)
  from max_messages_at_construction[OF st] have "max_messages st = Some 1000"
    by simp
  with st show ?thesis by simp
qed

subsection \<open>Readiness coordinator\<close>

lemma loop_event_mono:
  "loop_event st script e \<Longrightarrow> set script \<subseteq> set script' \<Longrightarrow> loop_event st script' e"
  unfolding loop_event_def by blast

lemma loop_event_cong:
  "chunk_guilds st' = chunk_guilds st \<Longrightarrow> intents_presences st' = intents_presences st \<Longrightarrow>
   loop_event st' script e = loop_event st script e"
  by (simp add: loop_event_def guild_needs_chunking_def)

lemma loop_event_Cons:
  "loop_event st rest e \<Longrightarrow> loop_event st (x # rest) e"
  by (rule loop_event_mono) auto

lemma needs_chunking_cong:
  "chunk_guilds st' = chunk_guilds st \<Longrightarrow> intents_presences st' = intents_presences st \<Longrightarrow>
   guild_needs_chunking st' g = guild_needs_chunking st g"
  by (simp add: guild_needs_chunking_def)

lemma chunk_guild_config:
  assumes "chunk_guild st g c n sc = (r, st')"
  shows "chunk_guilds st' = chunk_guilds st" and "intents_presences st' = intents_presences st"
  using assms
  by (auto simp: chunk_guild_def create_future_def Let_def split: option.splits if_splits prod.splits)

lemma chunk_guild_trace:
  assumes "chunk_guild st g c n sc = (r, st')"
  shows "trace st' = trace st \<or> trace st' = trace st @ [RequestChunks (guild_id g) n]"
  using assms
  by (auto simp: chunk_guild_def create_future_def Let_def split: option.splits if_splits prod.splits)

lemma dispatch_guild_trace:
  "trace (dispatch_guild st g) = trace st @ [Dispatch ''guild_available'' [guild_id g]] \<or>
   trace (dispatch_guild st g) = trace st @ [Dispatch ''guild_join'' [guild_id g]]"
  by (simp add: dispatch_guild_def dispatch_def)

lemma dispatch_guild_config:
  "chunk_guilds (dispatch_guild st g) = chunk_guilds st"
  "intents_presences (dispatch_guild st g) = intents_presences st"
  by (simp_all add: dispatch_guild_def dispatch_def)

lemma collecting_trace:
  "collecting st script states = (status, states', st') \<Longrightarrow>
   \<exists>evs. trace st' = trace st @ evs \<and> (\<forall>e \<in> set evs. loop_event st script e)"
proof (induction st script states arbitrary: status states' st' rule: collecting.induct)
  case (1 st states)
  then show ?case by simp
next
  case (2 st rest states)
  then show ?case by simp
next
  case (3 st rest states)
  then show ?case by simp
next
  case (4 st a rest states)
  show ?case
  proof (cases "guild_needs_chunking st (ann_guild a)")
    case True
    obtain r st1 where cg: "chunk_guild st (ann_guild a) None (ann_nonce a) (ann_send_cancelled a) = (r, st1)"
      by (cases "chunk_guild st (ann_guild a) None (ann_nonce a) (ann_send_cancelled a)")
    have ev1: "loop_event st (Got a # rest) (RequestChunks (guild_id (ann_guild a)) (ann_nonce a))"
      using True unfolding loop_event_def by auto
    have "\<exists>evs1. trace st1 = trace st @ evs1 \<and> (\<forall>e \<in> set evs1. loop_event st (Got a # rest) e)"
    proof (cases "trace st1 = trace st")
      case True
      then have "trace st1 = trace st @ [] \<and> (\<forall>e \<in> set []. loop_event st (Got a # rest) e)"
        by simp
      then show ?thesis by blast
    next
      case False
      with chunk_guild_trace[OF cg]
      have "trace st1 = trace st @ [RequestChunks (guild_id (ann_guild a)) (ann_nonce a)]" by simp
      with ev1 show ?thesis by simp
    qed
    then obtain evs1 where
      t1: "trace st1 = trace st @ evs1" and e1: "\<forall>e \<in> set evs1. loop_event st (Got a # rest) e"
      by blast
    show ?thesis
    proof (cases r)
      case None
      with 4(3) True cg have "st' = st1" by simp
      with t1 e1 show ?thesis by blast
    next
      case (Some fut)
      with 4(3) True cg have
        rec: "collecting st1 rest (states @ [(ann_guild a, fut, ann_wait a)]) = (status, states', st')"
        by simp
      from "4.IH"(1)[OF True cg[symmetric] Some rec] obtain evs2 where
        t2: "trace st' = trace st1 @ evs2" and e2: "\<forall>e \<in> set evs2. loop_event st1 rest e"
        by blast
      have e2': "\<forall>e \<in> set evs2. loop_event st (Got a # rest) e"
        using e2 loop_event_cong[OF chunk_guild_config[OF cg]] loop_event_Cons by blast
      have "trace st' = trace st @ (evs1 @ evs2)" using t1 t2 by simp
      moreover have "\<forall>e \<in> set (evs1 @ evs2). loop_event st (Got a # rest) e"
        using e1 e2' by simp blast
      ultimately show ?thesis by blast
    qed
  next
    case False
    with 4(3) have
      rec: "collecting (dispatch_guild st (ann_guild a)) rest states = (status, states', st')"
      by simp
    from "4.IH"(2)[OF False rec] obtain evs2 where
      t2: "trace st' = trace (dispatch_guild st (ann_guild a)) @ evs2" and
      e2: "\<forall>e \<in> set evs2. loop_event (dispatch_guild st (ann_guild a)) rest e"
      by blast
    have e2': "\<forall>e \<in> set evs2. loop_event st (Got a # rest) e"
      using e2 loop_event_cong[OF dispatch_guild_config] loop_event_Cons by blast
    have "\<exists>e0. trace (dispatch_guild st (ann_guild a)) = trace st @ [e0] \<and>
               loop_event st (Got a # rest) e0"
      using dispatch_guild_trace[of st "ann_guild a"] unfolding loop_event_def by blast
    then obtain e0 where
      t1: "trace (dispatch_guild st (ann_guild a)) = trace st @ [e0]" and
      e0: "loop_event st (Got a # rest) e0"
      by blast
    have "trace st' = trace st @ (e0 # evs2)" using t1 t2 by simp
    moreover have "\<forall>e \<in> set (e0 # evs2). loop_event st (Got a # rest) e"
      using e0 e2' by simp
    ultimately show ?thesis by blast
  qed
qed

lemma draining_trace:
  "draining st states = (status, st') \<Longrightarrow>
   \<exists>evs. trace st' = trace st @ evs \<and> (\<forall>e \<in> set evs. loop_event st0 [] e)"
proof (induction st states arbitrary: status st' rule: draining.induct)
  case (1 st)
  then show ?case by simp
next
  case (2 st g fut rest)
  from 2(2) have rec: "draining (dispatch_guild st g) rest = (status, st')" by simp
  from "2.IH"[OF rec] dispatch_guild_trace[of st g] show ?case
    unfolding loop_event_def by auto
next
  case (3 st g fut rest)
  let ?st1 = "log_warning (st\<lparr> futures := cancel_future (futures st) fut \<rparr>)
                ''Shard ID timed out waiting for chunks for guild_id''"
  from 3(2) have rec: "draining (dispatch_guild ?st1 g) rest = (status, st')" by simp
  have t1: "trace ?st1 = trace st @ [LogWarning ''Shard ID timed out waiting for chunks for guild_id'']"
    by (simp add: log_warning_def)
  from "3.IH"[OF rec] dispatch_guild_trace[of ?st1 g] t1 show ?case
    unfolding loop_event_def by auto
next
  case (4 st g fut rest)
  then show ?case by auto
qed



lemma delay_ready_trace:
  assumes "delay_ready st script = (status, st')"
  shows "\<exists>evs. (\<forall>e \<in> set evs. loop_event st script e) \<and>
           trace st' = trace st @ evs @
             (if status = Finished then [CallHandlers ''ready'', Dispatch ''ready'' []] else [])"
proof -
  obtain s1 states st1 where c: "collecting st script [] = (s1, states, st1)"
    by (cases "collecting st script []")
  from collecting_trace[OF c] obtain evs1 where
    t1: "trace st1 = trace st @ evs1" and e1: "\<forall>e \<in> set evs1. loop_event st script e"
    by blast
  show ?thesis
  proof (cases s1)
    case Suspended
    with assms c have "status = Suspended" "st' = st1" by (simp_all add: delay_ready_def)
    with t1 e1 show ?thesis by auto
  next
    case Cancelled
    with assms c have "status = Cancelled" "st' = st1\<lparr> ready_task := False \<rparr>"
      by (simp_all add: delay_ready_def)
    with t1 e1 show ?thesis by auto
  next
    case Finished
    obtain s2 st2 where d: "draining st1 states = (s2, st2)"
      by (cases "draining st1 states")
    from draining_trace[OF d, of st] obtain evs2 where
      t2: "trace st2 = trace st1 @ evs2" and e2: "\<forall>e \<in> set evs2. loop_event st [] e"
      by blast
    have e2': "\<forall>e \<in> set evs2. loop_event st script e"
      using e2 loop_event_mono[of st "[]" _ script] by simp
    have e12: "\<forall>e \<in> set (evs1 @ evs2). loop_event st script e"
      using e1 e2' by auto
    show ?thesis
    proof (cases "s2 = Finished")
      case True
      with assms c d Finished have "status = Finished" and
        "st' = (dispatch (call_handlers (st2\<lparr> ready_state := False \<rparr>) ''ready'') ''ready'' [])
                 \<lparr> ready_task := False \<rparr>"
        by (simp_all add: delay_ready_def)
      then have "status = Finished" and
        "trace st' = trace st @ (evs1 @ evs2) @ [CallHandlers ''ready'', Dispatch ''ready'' []]"
        using t1 t2 by (simp_all add: dispatch_def call_handlers_def)
      with e12 show ?thesis by (intro exI[of _ "evs1 @ evs2"]) simp
    next
      case False
      with assms c d Finished have "status = Cancelled" and "st' = st2\<lparr> ready_task := False \<rparr>"
        by (cases s2; simp add: delay_ready_def)+
      then have "status = Cancelled" and "trace st' = trace st @ (evs1 @ evs2) @ []"
        using t1 t2 by simp_all
      with e12 show ?thesis by (intro exI[of _ "evs1 @ evs2"]) simp
    qed
  qed
qed

lemma delay_ready_emitted:
  assumes "delay_ready st script = (status, st')"
  shows "\<exists>evs. (\<forall>e \<in> set evs. loop_event st script e) \<and>
           emitted st st' = evs @
             (if status = Finished then [CallHandlers ''ready'', Dispatch ''ready'' []] else [])"
proof -
  from delay_ready_trace[OF assms] obtain evs where
    e: "\<forall>e \<in> set evs. loop_event st script e" and
    t: "trace st' = trace st @ evs @
          (if status = Finished then [CallHandlers ''ready'', Dispatch ''ready'' []] else [])"
    by blast
  have "emitted st st' = evs @
          (if status = Finished then [CallHandlers ''ready'', Dispatch ''ready'' []] else [])"
    unfolding emitted_def t by simp
  with e show ?thesis by blast
qed








lemma loop_event_request:
  "loop_event st script e \<Longrightarrow> is_request_for i e \<Longrightarrow>
   \<exists>a. Got a \<in> set script \<and> guild_id (ann_guild a) = i \<and> guild_needs_chunking st (ann_guild a)"
  unfolding loop_event_def by (elim disjE exE conjE) auto

lemma delay_ready_requests:
  assumes "e \<in> set (emitted st (snd (delay_ready st script)))" and "is_request_for i e"
  shows "\<exists>a. Got a \<in> set script \<and> guild_id (ann_guild a) = i \<and>
             guild_needs_chunking st (ann_guild a)"
proof -
  obtain status st' where r: "delay_ready st script = (status, st')"
    by (cases "delay_ready st script")
  from delay_ready_emitted[OF r] obtain evs where
    e: "\<forall>e \<in> set evs. loop_event st script e" and
    t: "emitted st st' = evs @
          (if status = Finished then [CallHandlers ''ready'', Dispatch ''ready'' []] else [])"
    by blast
  from assms(1) r t have
    "e \<in> set evs \<or> e = CallHandlers ''ready'' \<or> e = Dispatch ''ready'' []"
    by (auto split: if_splits)
  with assms(2) have "e \<in> set evs" by auto
  with e have "loop_event st script e" by blast
  from loop_event_request[OF this assms(2)] show ?thesis .
qed

text \<open>
  C6: a guild that is chunked never needs chunking, whatever the configuration; the
  predicate holds exactly when startup chunking is on, the guild is not chunked, and it
  is not the case that the presences intent is on while the guild is not large. In
  every run of the coordinator each chunk request sent is for an announced guild that
  is not chunked and needs chunking; when every announcement of a guild id is chunked,
  no chunk request is sent for that id.
\<close>

theorem backfill_gating:
  "(chunked g \<longrightarrow> \<not> guild_needs_chunking st g) \<and>
   (guild_needs_chunking st g =
      (chunk_guilds st \<and> \<not> chunked g \<and> \<not> (intents_presences st \<and> \<not> large g))) \<and>
   (\<forall>e \<in> set (emitted st (snd (delay_ready st script))). \<forall>i. is_request_for i e \<longrightarrow>
      (\<exists>a. Got a \<in> set script \<and> guild_id (ann_guild a) = i \<and> \<not> chunked (ann_guild a) \<and>
           guild_needs_chunking st (ann_guild a))) \<and>
   ((\<forall>a. Got a \<in> set script \<and> guild_id (ann_guild a) = guild_id g \<longrightarrow> chunked (ann_guild a)) \<longrightarrow>
      (\<forall>e \<in> set (emitted st (snd (delay_ready st script))). \<not> is_request_for (guild_id g) e))"
proof (intro conjI)
  show "chunked g \<longrightarrow> \<not> guild_needs_chunking st g"
    by (simp add: guild_needs_chunking_def)
  show "guild_needs_chunking st g =
      (chunk_guilds st \<and> \<not> chunked g \<and> \<not> (intents_presences st \<and> \<not> large g))"
    by (simp add: guild_needs_chunking_def)
  show "\<forall>e \<in> set (emitted st (snd (delay_ready st script))). \<forall>i. is_request_for i e \<longrightarrow>
      (\<exists>a. Got a \<in> set script \<and> guild_id (ann_guild a) = i \<and> \<not> chunked (ann_guild a) \<and>
           guild_needs_chunking st (ann_guild a))"
  proof (intro ballI allI impI)
    fix e i
    assume "e \<in> set (emitted st (snd (delay_ready st script)))" and "is_request_for i e"
    from delay_ready_requests[OF this] obtain a where
      a: "Got a \<in> set script" "guild_id (ann_guild a) = i" "guild_needs_chunking st (ann_guild a)"
      by blast
    from a(3) have "\<not> chunked (ann_guild a)" by (simp add: guild_needs_chunking_def)
    with a show "\<exists>a. Got a \<in> set script \<and> guild_id (ann_guild a) = i \<and> \<not> chunked (ann_guild a) \<and>
           guild_needs_chunking st (ann_guild a)" by blast
  qed
  show "(\<forall>a. Got a \<in> set script \<and> guild_id (ann_guild a) = guild_id g \<longrightarrow> chunked (ann_guild a)) \<longrightarrow>
      (\<forall>e \<in> set (emitted st (snd (delay_ready st script))). \<not> is_request_for (guild_id g) e)"
  proof (intro impI ballI notI)
    fix e
    assume all: "\<forall>a. Got a \<in> set script \<and> guild_id (ann_guild a) = guild_id g \<longrightarrow> chunked (ann_guild a)"
      and "e \<in> set (emitted st (snd (delay_ready st script)))" and "is_request_for (guild_id g) e"
    from delay_ready_requests[OF this(2,3)] obtain a where
      a: "Got a \<in> set script" "guild_id (ann_guild a) = guild_id g"
         "guild_needs_chunking st (ann_guild a)"
      by blast
    from a(3) have "\<not> chunked (ann_guild a)" by (simp add: guild_needs_chunking_def)
    with all a show False by blast
  qed
qed

theorem backfill_gating_witness:
  "chunked ((sample_guild 7)\<lparr> chunked := True \<rparr>) \<and>
   \<not> guild_needs_chunking sample_state ((sample_guild 7)\<lparr> chunked := True \<rparr>) \<and>
   guild_needs_chunking sample_state (sample_guild 8) \<and>
   emitted sample_state
     (snd (delay_ready sample_state
        [Got (announce ((sample_guild 7)\<lparr> chunked := True \<rparr>)), Got (announce (sample_guild 8)),
         GetTimeout]))
   = [Dispatch ''guild_available'' [7], RequestChunks 8 ''a1'', Dispatch ''guild_available'' [8],
      CallHandlers ''ready'', Dispatch ''ready'' []]"
  using backfill_gating[of "(sample_guild 7)\<lparr> chunked := True \<rparr>" sample_state
      "[Got (announce ((sample_guild 7)\<lparr> chunked := True \<rparr>)), Got (announce (sample_guild 8)),
         GetTimeout]"]
  by (simp add: sample_guild_def sample_state_def announce_def guild_needs_chunking_def
      delay_ready_def chunk_guild_def create_future_def dispatch_guild_def dispatch_def
      call_handlers_def ChunkRequest_def update_request_def emitted_def Let_def)



subsection \<open>Member count\<close>

lemma store_user_guilds:
  "guilds (snd (store_user st u)) = guilds st"
  by (simp add: store_user_def split: option.splits)

lemma member_add_count:
  assumes "guilds st gid = Some g" and "member_count g = Some c"
  shows "map_option member_count (guilds (parse_guild_member_add st gid m) gid) = Some (Some (c + 1))"
  using assms by (simp add: parse_guild_member_add_def dispatch_def Let_def)

lemma member_remove_count:
  assumes "guilds st gid = Some g" and "member_count g = Some c"
  shows "map_option member_count (guilds (parse_guild_member_remove st gid u) gid) = Some (Some (c - 1))"
proof -
  obtain usr st0 where s: "store_user st u = (usr, st0)" by (cases "store_user st u")
  with store_user_guilds[of st u] have g0: "guilds st0 = guilds st" by simp
  show ?thesis
    using assms s g0
    by (simp add: parse_guild_member_remove_def dispatch_def Let_def split: option.splits)
qed

text \<open>
  C10: for a cached guild whose member count is tracked, \<open>GUILD_MEMBER_ADD\<close> adds one to
  the count and \<open>GUILD_MEMBER_REMOVE\<close> takes one off, whatever the \<open>joined\<close> member cache
  flag says and whether or not the member is in the guild's member cache; in
  particular the count goes down for a member that was never cached.
\<close>

theorem member_count_tracking:
  assumes "guilds st gid = Some g" and "member_count g = Some c"
  shows "map_option member_count (guilds (parse_guild_member_add st gid m) gid) = Some (Some (c + 1)) \<and>
         map_option member_count (guilds (parse_guild_member_remove st gid u) gid) = Some (Some (c - 1)) \<and>
         map_option member_count
           (guilds (parse_guild_member_add (st\<lparr> member_cache_joined := b \<rparr>) gid m) gid)
            = Some (Some (c + 1)) \<and>
         map_option member_count
           (guilds (parse_guild_member_remove (st\<lparr> member_cache_joined := b \<rparr>) gid u) gid)
            = Some (Some (c - 1)) \<and>
         (guild_members g (user_id u) = None \<longrightarrow>
            map_option member_count (guilds (parse_guild_member_remove st gid u) gid)
              = Some (Some (c - 1)))"
proof -
  have g': "guilds (st\<lparr> member_cache_joined := b \<rparr>) gid = Some g" using assms(1) by simp
  show ?thesis
    using member_add_count[OF assms] member_remove_count[OF assms]
      member_add_count[OF g' assms(2)] member_remove_count[OF g' assms(2)]
    by simp
qed

theorem member_count_tracking_witness:
  "map_option member_count
     (guilds (parse_guild_member_remove
        (sample_state\<lparr> guilds := [7 \<mapsto> sample_guild 7], member_cache_joined := False \<rparr>) 7
        \<lparr> user_id = 42, discriminator = ''0001'' \<rparr>) 7) = Some (Some 1) \<and>
   map_option member_count
     (guilds (parse_guild_member_add
        (sample_state\<lparr> guilds := [7 \<mapsto> sample_guild 7], member_cache_joined := False \<rparr>) 7
        \<lparr> member_id = 42, joined_at = None \<rparr>) 7) = Some (Some 3)"
proof -
  let ?st = "sample_state\<lparr> guilds := [7 \<mapsto> sample_guild 7], member_cache_joined := False \<rparr>"
  have g: "guilds ?st 7 = Some (sample_guild 7)" by simp
  have c: "member_count (sample_guild 7) = Some 2" by (simp add: sample_guild_def)
  from member_count_tracking[OF g c, of "\<lparr> member_id = 42, joined_at = None \<rparr>"
      "\<lparr> user_id = 42, discriminator = ''0001'' \<rparr>" False]
  show ?thesis by simp
qed

subsection \<open>Scheduled-event subscribers\<close>





subsection \<open>Guild removal\<close>

lemma clear_messages_wf:
  "messages_wf (clear st)"
  by (simp add: messages_wf_def clear_def deque_of_def split: option.splits)

lemma deque_append_bound:
  "maxlen (deque_append d x) = maxlen d \<and>
   (case maxlen d of None \<Rightarrow> True | Some n \<Rightarrow> length (items (deque_append d x)) \<le> n)"
proof (cases "maxlen d")
  case None
  then show ?thesis by (simp add: deque_append_def deque_of_def)
next
  case (Some n)
  have "length (drop (length (items d @ [x]) - n) (items d @ [x])) \<le> n"
    by simp
  with Some show ?thesis by (simp add: deque_append_def deque_of_def)
qed

lemma pop_emojis_apply:
  "pop_emojis es m i = (if i \<in> emoji_id ` set es then None else m i)"
  unfolding pop_emojis_def by (induction es arbitrary: m) auto

lemma pop_stickers_apply:
  "pop_stickers ss m i = (if i \<in> sticker_id ` set ss then None else m i)"
  unfolding pop_stickers_def by (induction ss arbitrary: m) auto

lemma deque_of_filter:
  assumes "case cap of None \<Rightarrow> True | Some n \<Rightarrow> length xs \<le> n"
  shows "deque_of (filter P xs) cap = \<lparr> items = filter P xs, maxlen = cap \<rparr>"
proof (cases cap)
  case None
  then show ?thesis by (simp add: deque_of_def)
next
  case (Some n)
  with assms have "length xs \<le> n" by simp
  with length_filter_le[of P xs] have "length (filter P xs) \<le> n" by linarith
  then have "length (filter P xs) - n = 0" by simp
  with Some show ?thesis by (simp add: deque_of_def)
qed

lemma guild_delete_messages:
  assumes "guilds st gid = Some g" and "messages_wf st"
  shows "messages (parse_guild_delete st gid False) =
           map_option (\<lambda>d. \<lparr> items = filter (\<lambda>msg. message_guild msg \<noteq> Some (guild_id g)) (items d),
                              maxlen = maxlen d \<rparr>) (messages st)"
proof (cases "messages st")
  case None
  with assms(1) show ?thesis
    by (simp add: parse_guild_delete_def remove_guild_def dispatch_def)
next
  case (Some d)
  with assms(2) have "maxlen d = map_option nat (max_messages st) \<and>
      (case maxlen d of None \<Rightarrow> True | Some n \<Rightarrow> length (items d) \<le> n)"
    by (auto simp: messages_wf_def split: option.splits)
  then have m: "maxlen d = map_option nat (max_messages st)" and
    l: "case maxlen d of None \<Rightarrow> True | Some n \<Rightarrow> length (items d) \<le> n"
    by blast+
  from deque_of_filter[OF l] m Some assms(1) show ?thesis
    by (simp add: parse_guild_delete_def remove_guild_def dispatch_def)
qed

lemma guild_delete_maps:
  assumes "guilds st gid = Some g"
  shows "guilds (parse_guild_delete st gid False) = (guilds st)(guild_id g := None)"
    and "emojis (parse_guild_delete st gid False) = pop_emojis (guild_emojis g) (emojis st)"
    and "stickers (parse_guild_delete st gid False) = pop_stickers (guild_stickers g) (stickers st)"
    and "users (parse_guild_delete st gid False) = users st"
    and "private_channels (parse_guild_delete st gid False) = private_channels st"
    and "private_channels_by_user (parse_guild_delete st gid False) = private_channels_by_user st"
    and "chunk_requests (parse_guild_delete st gid False) = chunk_requests st"
    and "trace (parse_guild_delete st gid False) = trace st @ [Dispatch ''guild_remove'' [guild_id g]]"
  using assms
  by (simp_all add: parse_guild_delete_def remove_guild_def dispatch_def split: option.splits)

text \<open>
  C5: for a cached guild \<open>g\<close> (stored under its id), \<open>GUILD_DELETE\<close> without the
  unavailable flag takes \<open>g\<close> out of the guild map and leaves every other guild; it
  takes out of the global emoji and sticker maps exactly the ids of \<open>g\<close>'s emojis and
  stickers and leaves every other entry; the message deque keeps, in order and with the
  same capacity, exactly the messages that do not belong to \<open>g\<close>.
\<close>

theorem guild_delete_cascade:
  assumes "guilds st gid = Some g" and "guild_id g = gid" and "messages_wf st"
  shows "guilds (parse_guild_delete st gid False) = (guilds st)(gid := None) \<and>
         (\<forall>i. emojis (parse_guild_delete st gid False) i =
                (if i \<in> emoji_id ` set (guild_emojis g) then None else emojis st i)) \<and>
         (\<forall>i. stickers (parse_guild_delete st gid False) i =
                (if i \<in> sticker_id ` set (guild_stickers g) then None else stickers st i)) \<and>
         messages (parse_guild_delete st gid False) =
           map_option (\<lambda>d. \<lparr> items = filter (\<lambda>msg. message_guild msg \<noteq> Some gid) (items d),
                              maxlen = maxlen d \<rparr>) (messages st) \<and>
         messages_wf (parse_guild_delete st gid False)"
proof -
  have mm: "max_messages (parse_guild_delete st gid False) = max_messages st"
    using assms(1) by (simp add: parse_guild_delete_def remove_guild_def dispatch_def split: option.splits)
  have msgs: "messages (parse_guild_delete st gid False) =
           map_option (\<lambda>d. \<lparr> items = filter (\<lambda>msg. message_guild msg \<noteq> Some gid) (items d),
                              maxlen = maxlen d \<rparr>) (messages st)"
    using guild_delete_messages[OF assms(1,3)] assms(2) by simp
  have wf: "messages_wf (parse_guild_delete st gid False)"
  proof (cases "messages st")
    case None
    with msgs show ?thesis by (simp add: messages_wf_def)
  next
    case (Some d)
  with assms(3) have "maxlen d = map_option nat (max_messages st) \<and>
      (case maxlen d of None \<Rightarrow> True | Some n \<Rightarrow> length (items d) \<le> n)"
    by (auto simp: messages_wf_def split: option.splits)
  then have m: "maxlen d = map_option nat (max_messages st)" and
    l: "case maxlen d of None \<Rightarrow> True | Some n \<Rightarrow> length (items d) \<le> n"
    by blast+
    show ?thesis
    proof (cases "max_messages st")
      case None
      with m Some msgs mm show ?thesis by (simp add: messages_wf_def)
    next
      case (Some n)
      with m l have "length (items d) \<le> nat n" by simp
      with length_filter_le[of "\<lambda>msg. message_guild msg \<noteq> Some gid" "items d"]
      have "length (filter (\<lambda>msg. message_guild msg \<noteq> Some gid) (items d)) \<le> nat n"
        by linarith
      with m Some \<open>messages st = Some d\<close> msgs mm show ?thesis by (simp add: messages_wf_def)
    qed
  qed
  from guild_delete_maps(1-3)[OF assms(1)] assms(2) msgs wf show ?thesis
    by (simp add: pop_emojis_apply pop_stickers_apply)
qed

theorem guild_delete_cascade_witness:
  "emojis (parse_guild_delete
     (sample_state\<lparr>
        guilds := [7 \<mapsto> (sample_guild 7)\<lparr> guild_emojis := [\<lparr> emoji_id = 1 \<rparr>, \<lparr> emoji_id = 2 \<rparr>] \<rparr>,
                   8 \<mapsto> (sample_guild 8)\<lparr> guild_emojis := [\<lparr> emoji_id = 3 \<rparr>] \<rparr>],
        emojis := [1 \<mapsto> \<lparr> emoji_id = 1 \<rparr>, 2 \<mapsto> \<lparr> emoji_id = 2 \<rparr>, 3 \<mapsto> \<lparr> emoji_id = 3 \<rparr>],
        messages := Some \<lparr> items = [\<lparr> message_id = 100, message_guild = Some 7 \<rparr>,
                                     \<lparr> message_id = 101, message_guild = Some 8 \<rparr>,
                                     \<lparr> message_id = 102, message_guild = None \<rparr>],
                            maxlen = Some 1000 \<rparr> \<rparr>) 7 False) 1 = None \<and>
   emojis (parse_guild_delete
     (sample_state\<lparr>
        guilds := [7 \<mapsto> (sample_guild 7)\<lparr> guild_emojis := [\<lparr> emoji_id = 1 \<rparr>, \<lparr> emoji_id = 2 \<rparr>] \<rparr>,
                   8 \<mapsto> (sample_guild 8)\<lparr> guild_emojis := [\<lparr> emoji_id = 3 \<rparr>] \<rparr>],
        emojis := [1 \<mapsto> \<lparr> emoji_id = 1 \<rparr>, 2 \<mapsto> \<lparr> emoji_id = 2 \<rparr>, 3 \<mapsto> \<lparr> emoji_id = 3 \<rparr>],
        messages := Some \<lparr> items = [\<lparr> message_id = 100, message_guild = Some 7 \<rparr>,
                                     \<lparr> message_id = 101, message_guild = Some 8 \<rparr>,
                                     \<lparr> message_id = 102, message_guild = None \<rparr>],
                            maxlen = Some 1000 \<rparr> \<rparr>) 7 False) 3 = Some \<lparr> emoji_id = 3 \<rparr> \<and>
   messages (parse_guild_delete
     (sample_state\<lparr>
        guilds := [7 \<mapsto> (sample_guild 7)\<lparr> guild_emojis := [\<lparr> emoji_id = 1 \<rparr>, \<lparr> emoji_id = 2 \<rparr>] \<rparr>,
                   8 \<mapsto> (sample_guild 8)\<lparr> guild_emojis := [\<lparr> emoji_id = 3 \<rparr>] \<rparr>],
        emojis := [1 \<mapsto> \<lparr> emoji_id = 1 \<rparr>, 2 \<mapsto> \<lparr> emoji_id = 2 \<rparr>, 3 \<mapsto> \<lparr> emoji_id = 3 \<rparr>],
        messages := Some \<lparr> items = [\<lparr> message_id = 100, message_guild = Some 7 \<rparr>,
                                     \<lparr> message_id = 101, message_guild = Some 8 \<rparr>,
                                     \<lparr> message_id = 102, message_guild = None \<rparr>],
                            maxlen = Some 1000 \<rparr> \<rparr>) 7 False)
     = Some \<lparr> items = [\<lparr> message_id = 101, message_guild = Some 8 \<rparr>,
                        \<lparr> message_id = 102, message_guild = None \<rparr>],
               maxlen = Some 1000 \<rparr>"
proof -
  let ?g = "(sample_guild 7)\<lparr> guild_emojis := [\<lparr> emoji_id = 1 \<rparr>, \<lparr> emoji_id = 2 \<rparr>] \<rparr>"
  let ?st = "sample_state\<lparr>
        guilds := [7 \<mapsto> ?g,
                   8 \<mapsto> (sample_guild 8)\<lparr> guild_emojis := [\<lparr> emoji_id = 3 \<rparr>] \<rparr>],
        emojis := [1 \<mapsto> \<lparr> emoji_id = 1 \<rparr>, 2 \<mapsto> \<lparr> emoji_id = 2 \<rparr>, 3 \<mapsto> \<lparr> emoji_id = 3 \<rparr>],
        messages := Some \<lparr> items = [\<lparr> message_id = 100, message_guild = Some 7 \<rparr>,
                                     \<lparr> message_id = 101, message_guild = Some 8 \<rparr>,
                                     \<lparr> message_id = 102, message_guild = None \<rparr>],
                            maxlen = Some 1000 \<rparr> \<rparr>"
  have 1: "guilds ?st 7 = Some ?g" by simp
  have 2: "guild_id ?g = 7" by (simp add: sample_guild_def)
  have 3: "messages_wf ?st" by (simp add: messages_wf_def sample_state_def)
  from guild_delete_cascade[OF 1 2 3] show ?thesis by simp
qed

subsection \<open>Private channels\<close>

lemma od_set_keys:
  "map fst (od_set d k v) = (if k \<in> fst ` set d then map fst d else map fst d @ [k])"
proof (induction d)
  case Nil
  then show ?case by simp
next
  case (Cons p d)
  obtain k' v' where p: "p = (k', v')" by (cases p)
  show ?case
  proof (cases "k' = k")
    case True
    with p show ?thesis by simp
  next
    case False
    with p Cons.IH show ?thesis by (cases "k \<in> fst ` set d") simp_all
  qed
qed

lemma od_set_length:
  "length (od_set d k v) = (if k \<in> fst ` set d then length d else Suc (length d))"
  using arg_cong[OF od_set_keys[of d k v], of length] by (simp split: if_splits)

lemma od_set_new:
  "k \<notin> fst ` set d \<Longrightarrow> od_set d k v = d @ [(k, v)]"
  by (induction d) auto

lemma od_set_map_of:
  "map_of (od_set d k v) = (map_of d)(k \<mapsto> v)"
  by (induction d) auto

lemma od_del_length:
  "length (od_del d k) \<le> length d"
  by (simp add: od_del_def)

lemma od_del_length_present:
  "map_of d k = Some v \<Longrightarrow> length (od_del d k) < length d"
proof -
  assume "map_of d k = Some v"
  then have "(k, v) \<in> set d" by (rule map_of_SomeD)
  then show ?thesis unfolding od_del_def
    by (intro length_filter_less[of "(k, v)"]) simp_all
qed

lemma move_to_end_length:
  "length (move_to_end d k) \<le> length d"
proof (cases "map_of d k")
  case None
  then show ?thesis by (simp add: move_to_end_def)
next
  case (Some v)
  from od_del_length_present[OF this] Some show ?thesis by (simp add: move_to_end_def)
qed

lemma get_private_channel_bound:
  "length (private_channels st) \<le> 128 \<Longrightarrow>
   length (private_channels (snd (get_private_channel st cid))) \<le> 128"
  using move_to_end_length[of "private_channels st"]
  by (auto simp: get_private_channel_def split: option.splits intro: le_trans)

lemma add_private_channel_channels:
  "private_channels (add_private_channel st channel) =
     (let pcs = od_set (private_channels st) (channel_id channel) channel
      in if length pcs > 128 then tl pcs else pcs)"
  by (auto simp: add_private_channel_def Let_def split: option.splits list.splits)

lemma add_private_channel_bound:
  assumes "length (private_channels st) \<le> 128"
  shows "length (private_channels (add_private_channel st channel)) \<le> 128"
  using assms od_set_length[of "private_channels st" "channel_id channel" channel]
  unfolding add_private_channel_channels by (simp add: Let_def split: if_splits)

lemma add_private_channel_evicts:
  assumes "private_channels st = (k0, c0) # rest" and "length (private_channels st) = 128"
    and "channel_id channel \<notin> fst ` set (private_channels st)"
  shows "private_channels (add_private_channel st channel) = rest @ [(channel_id channel, channel)]"
    and "private_channels_by_user (add_private_channel st channel) =
           (let idx = (case dm_recipient c0 of
                         Some r \<Rightarrow> (private_channels_by_user st)(user_id r := None)
                       | None \<Rightarrow> private_channels_by_user st)
            in case dm_recipient channel of
                 Some r \<Rightarrow> idx(user_id r \<mapsto> channel)
               | None \<Rightarrow> idx)"
proof -
  have s: "od_set (private_channels st) (channel_id channel) channel =
             (k0, c0) # rest @ [(channel_id channel, channel)]"
    using od_set_new[OF assms(3)] assms(1) by simp
  have l: "length rest = 127" using assms(1,2) by simp
  show "private_channels (add_private_channel st channel) = rest @ [(channel_id channel, channel)]"
    unfolding add_private_channel_channels s using l by (simp add: Let_def)
  show "private_channels_by_user (add_private_channel st channel) =
           (let idx = (case dm_recipient c0 of
                         Some r \<Rightarrow> (private_channels_by_user st)(user_id r := None)
                       | None \<Rightarrow> private_channels_by_user st)
            in case dm_recipient channel of
                 Some r \<Rightarrow> idx(user_id r \<mapsto> channel)
               | None \<Rightarrow> idx)"
    unfolding add_private_channel_def s using l
    by (simp add: Let_def split: option.splits)
qed

lemma add_private_channel_present_key:
  assumes "channel_id channel \<in> fst ` set (private_channels st)"
    and "length (private_channels st) \<le> 128"
  shows "map fst (private_channels (add_private_channel st channel)) = map fst (private_channels st)"
    and "map_of (private_channels (add_private_channel st channel)) (channel_id channel) = Some channel"
  using assms od_set_length[of "private_channels st" "channel_id channel" channel]
    od_set_keys[of "private_channels st" "channel_id channel" channel]
  unfolding add_private_channel_channels
  by (simp_all add: Let_def od_set_map_of)

lemma get_private_channel_promotes:
  assumes "map_of (private_channels st) c = Some v"
  shows "get_private_channel st (Some c) =
           (Some v, st\<lparr> private_channels := od_del (private_channels st) c @ [(c, v)] \<rparr>)"
  using assms by (simp add: get_private_channel_def move_to_end_def)

text \<open>
  C3 at a cache holding the channels 1 and 2, oldest first: inserting a channel under
  the present key 1 replaces the value and leaves the entry at the front, the least
  recently used place; a lookup of key 1 in the same cache moves it to the end.
\<close>

theorem add_private_channel_present_key_keeps_position:
  "private_channels
     (add_private_channel
        (sample_state\<lparr> private_channels := [(1, GroupChannel 1), (2, GroupChannel 2)] \<rparr>)
        (DMChannel 1 None))
   = [(1, DMChannel 1 None), (2, GroupChannel 2)] \<and>
   private_channels
     (snd (get_private_channel
        (sample_state\<lparr> private_channels := [(1, GroupChannel 1), (2, GroupChannel 2)] \<rparr>)
        (Some 1)))
   = [(2, GroupChannel 2), (1, GroupChannel 1)]"
  by (simp add: add_private_channel_def get_private_channel_def move_to_end_def od_del_def
      sample_state_def Let_def)

subsection \<open>Merging a page into the member cache\<close>








subsection \<open>Attribution of pages to requests\<close>

lemma set_result_nth:
  "set_result fs i b ! j = (if i = j \<and> j < length fs \<and> fs ! j = Pending then Result b else fs ! j)"
  by (auto simp: set_result_def nth_list_update)

lemma set_result_length:
  "length (set_result fs i b) = length fs"
  by (simp add: set_result_def)

lemma fold_set_result_length:
  "length (fold (\<lambda>i fs. set_result fs i b) ws fs) = length fs"
  by (induction ws arbitrary: fs) (simp_all add: set_result_length)

lemma fold_set_result_nth:
  "fold (\<lambda>i fs. set_result fs i b) ws fs ! j =
     (if j \<in> set ws \<and> j < length fs \<and> fs ! j = Pending then Result b else fs ! j)"
proof (induction ws arbitrary: fs)
  case Nil
  then show ?case by simp
next
  case (Cons w ws)
  show ?case
    using Cons.IH[of "set_result fs w b"]
    by (auto simp: set_result_nth set_result_length)
qed

lemma done_request_nth:
  "done_request request fs ! j =
     (if j \<in> set (waiters request) \<and> j < length fs \<and> fs ! j = Pending
      then Result (buffer request) else fs ! j)"
  unfolding done_request_def by (rule fold_set_result_nth)

lemma done_request_length:
  "length (done_request request fs) = length fs"
  unfolding done_request_def by (rule fold_set_result_length)

lemma add_members_fst:
  "fst (add_members st request ms) = buffered ms request"
  by (simp add: add_members_def buffered_def Let_def split: option.splits)

lemma add_members_snd:
  "snd (add_members st request ms) = st\<lparr> guilds := guilds (snd (add_members st request ms)) \<rparr>"
  by (simp add: add_members_def Let_def split: option.splits)

lemma add_members_fields:
  "futures (snd (add_members st request ms)) = futures st"
  "chunk_requests (snd (add_members st request ms)) = chunk_requests st"
  "trace (snd (add_members st request ms)) = trace st"
  by (simp_all add: add_members_def Let_def split: option.splits)

lemma matched_step_fields:
  "chunk_requests (matched_step ms c request st) = chunk_requests st"
  "trace (matched_step ms c request st) = trace st"
  "futures (matched_step ms c request st) =
     (if c then done_request (buffered ms request) (futures st) else futures st)"
  by (simp_all add: matched_step_def Let_def add_members_fields)

lemma chunk_loop_Cons:
  "chunk_loop ((key, request) # rest) gid n ms c st =
     (if page_matches gid n request then
        (case chunk_loop rest gid n ms c (matched_step ms c request st) of
           (entries, removed, st3) \<Rightarrow>
             ((key, buffered ms request) # entries, (if c then [key] else []) @ removed, st3))
      else
        (case chunk_loop rest gid n ms c st of
           (entries, removed, st3) \<Rightarrow> ((key, request) # entries, removed, st3)))"
proof -
  obtain r1 st1 where a: "add_members st request ms = (r1, st1)"
    by (cases "add_members st request ms")
  with add_members_fst[of st request ms] have r1: "r1 = buffered ms request" by simp
  from a have st1: "st1 = snd (add_members st request ms)" by simp
  show ?thesis
    by (simp add: page_matches_def a r1 matched_step_def Let_def st1[symmetric]
        split: prod.splits)
qed

lemma chunk_loop_entries:
  "fst (chunk_loop es gid n ms c st) =
     map (\<lambda>(k, r). if page_matches gid n r then (k, buffered ms r) else (k, r)) es"
proof (induction es arbitrary: st)
  case Nil
  then show ?case by simp
next
  case (Cons e es)
  obtain k r where e: "e = (k, r)" by (cases e)
  obtain es1 rem1 st1 where 1: "chunk_loop es gid n ms c st = (es1, rem1, st1)"
    by (cases "chunk_loop es gid n ms c st")
  obtain es2 rem2 st2 where
    2: "chunk_loop es gid n ms c (matched_step ms c r st) = (es2, rem2, st2)"
    by (cases "chunk_loop es gid n ms c (matched_step ms c r st)")
  show ?case
    unfolding e chunk_loop_Cons
    using Cons.IH[of st] Cons.IH[of "matched_step ms c r st"]
    by (simp add: 1 2)
qed

lemma chunk_loop_removed:
  "fst (snd (chunk_loop es gid n ms c st)) =
     (if c then map fst (filter (\<lambda>(k, r). page_matches gid n r) es) else [])"
proof (induction es arbitrary: st)
  case Nil
  then show ?case by simp
next
  case (Cons e es)
  obtain k r where e: "e = (k, r)" by (cases e)
  show ?case
    unfolding e chunk_loop_Cons
    using Cons.IH[of st] Cons.IH[of "matched_step ms c r st"]
    by (cases c) (simp_all add: case_prod_beta)
qed

lemma chunk_loop_fields:
  "chunk_requests (snd (snd (chunk_loop es gid n ms c st))) = chunk_requests st \<and>
   trace (snd (snd (chunk_loop es gid n ms c st))) = trace st \<and>
   length (futures (snd (snd (chunk_loop es gid n ms c st)))) = length (futures st)"
proof (induction es arbitrary: st)
  case Nil
  then show ?case by simp
next
  case (Cons e es)
  obtain k r where e: "e = (k, r)" by (cases e)
  obtain es1 rem1 st1 where 1: "chunk_loop es gid n ms c st = (es1, rem1, st1)"
    by (cases "chunk_loop es gid n ms c st")
  obtain es2 rem2 st2 where
    2: "chunk_loop es gid n ms c (matched_step ms c r st) = (es2, rem2, st2)"
    by (cases "chunk_loop es gid n ms c (matched_step ms c r st)")
  show ?case
    unfolding e chunk_loop_Cons
    using Cons.IH[of st] Cons.IH[of "matched_step ms c r st"]
    by (simp add: 1 2 matched_step_fields done_request_length)
qed

lemma chunk_loop_no_match:
  "\<forall>(k, r) \<in> set es. \<not> page_matches gid n r \<Longrightarrow> chunk_loop es gid n ms c st = (es, [], st)"
proof (induction es)
  case Nil
  then show ?case by simp
next
  case (Cons e es)
  obtain k r where e: "e = (k, r)" by (cases e)
  from Cons.prems e have "\<not> page_matches gid n r" and "\<forall>(k, r) \<in> set es. \<not> page_matches gid n r"
    by simp_all
  with Cons.IH show ?case unfolding e chunk_loop_Cons by simp
qed

lemma waiters_buffered:
  "waiters (buffered ms r) = waiters r" "buffer (buffered ms r) = buffer r @ ms"
  "req_guild_id (buffered ms r) = req_guild_id r" "nonce (buffered ms r) = nonce r"
  by (simp_all add: buffered_def)

lemma chunk_loop_futures_incomplete:
  "futures (snd (snd (chunk_loop es gid n ms False st))) = futures st"
proof (induction es arbitrary: st)
  case Nil
  then show ?case by simp
next
  case (Cons e es)
  obtain k r where e: "e = (k, r)" by (cases e)
  show ?case
    unfolding e chunk_loop_Cons
    using Cons.IH[of st] Cons.IH[of "matched_step ms False r st"]
    by (simp add: case_prod_beta matched_step_fields)
qed

lemma chunk_loop_futures_keep:
  "futures st ! j \<noteq> Pending \<Longrightarrow>
   futures (snd (snd (chunk_loop es gid n ms c st))) ! j = futures st ! j"
proof (induction es arbitrary: st)
  case Nil
  then show ?case by simp
next
  case (Cons e es)
  obtain k r where e: "e = (k, r)" by (cases e)
  have m: "futures (matched_step ms c r st) ! j = futures st ! j"
    using Cons.prems by (simp add: matched_step_fields done_request_nth)
  with Cons.prems have "futures (matched_step ms c r st) ! j \<noteq> Pending" by simp
  from Cons.IH[OF this] Cons.IH[OF Cons.prems] m show ?case
    unfolding e chunk_loop_Cons by (simp add: case_prod_beta)
qed

lemma chunk_loop_futures_frame:
  "\<forall>(k, r) \<in> set es. page_matches gid n r \<longrightarrow> j \<notin> set (waiters r) \<Longrightarrow>
   futures (snd (snd (chunk_loop es gid n ms c st))) ! j = futures st ! j"
proof (induction es arbitrary: st)
  case Nil
  then show ?case by simp
next
  case (Cons e es)
  obtain k r where e: "e = (k, r)" by (cases e)
  from Cons.prems e have hd: "page_matches gid n r \<longrightarrow> j \<notin> set (waiters r)" and
    tl: "\<forall>(k, r) \<in> set es. page_matches gid n r \<longrightarrow> j \<notin> set (waiters r)"
    by simp_all
  show ?case
  proof (cases "page_matches gid n r")
    case True
    with hd have "j \<notin> set (waiters r)" by simp
    then have m: "futures (matched_step ms c r st) ! j = futures st ! j"
      by (simp add: matched_step_fields done_request_nth waiters_buffered)
    from Cons.IH[OF tl, of "matched_step ms c r st"] m True show ?thesis
      unfolding e chunk_loop_Cons by (simp add: case_prod_beta)
  next
    case False
    with Cons.IH[OF tl, of st] show ?thesis
      unfolding e chunk_loop_Cons by (simp add: case_prod_beta)
  qed
qed

lemma chunk_loop_futures_resolved:
  "(k, r) \<in> set es \<Longrightarrow> page_matches gid n r \<Longrightarrow> j \<in> set (waiters r) \<Longrightarrow>
   j < length (futures st) \<Longrightarrow> futures st ! j = Pending \<Longrightarrow>
   \<exists>(k', r') \<in> set es. page_matches gid n r' \<and> j \<in> set (waiters r') \<and>
      futures (snd (snd (chunk_loop es gid n ms True st))) ! j = Result (buffer r' @ ms)"
proof (induction es arbitrary: st)
  case Nil
  then show ?case by simp
next
  case (Cons e es)
  obtain k0 r0 where e: "e = (k0, r0)" by (cases e)
  show ?case
  proof (cases "page_matches gid n r0 \<and> j \<in> set (waiters r0)")
    case True
    then have m: "futures (matched_step ms True r0 st) ! j = Result (buffer r0 @ ms)"
      using Cons.prems(4,5)
      by (simp add: matched_step_fields done_request_nth waiters_buffered)
    then have "futures (matched_step ms True r0 st) ! j \<noteq> Pending" by simp
    from chunk_loop_futures_keep[OF this, of es gid n ms True] m True
    have "futures (snd (snd (chunk_loop ((k0, r0) # es) gid n ms True st))) ! j
            = Result (buffer r0 @ ms)"
      unfolding chunk_loop_Cons by (simp add: case_prod_beta)
    with True show ?thesis
      unfolding e by (intro bexI[of _ "(k0, r0)"]) simp_all
  next
    case False
    with Cons.prems(1,2,3) e have in_tl: "(k, r) \<in> set es" by auto
    show ?thesis
    proof (cases "page_matches gid n r0")
      case True
      with False have nj: "j \<notin> set (waiters r0)" by simp
      have m: "futures (matched_step ms True r0 st) ! j = Pending"
        using nj Cons.prems(5)
        by (simp add: matched_step_fields done_request_nth waiters_buffered)
      have l: "j < length (futures (matched_step ms True r0 st))"
        using Cons.prems(4) by (simp add: matched_step_fields done_request_length)
      from Cons.IH[OF in_tl Cons.prems(2,3) l m] obtain k' r' where
        w: "(k', r') \<in> set es" "page_matches gid n r'" "j \<in> set (waiters r')" and
        f: "futures (snd (snd (chunk_loop es gid n ms True (matched_step ms True r0 st)))) ! j
           = Result (buffer r' @ ms)"
        by auto
      from f True have
        "futures (snd (snd (chunk_loop ((k0, r0) # es) gid n ms True st))) ! j
           = Result (buffer r' @ ms)"
        unfolding chunk_loop_Cons by (simp add: case_prod_beta)
      with w show ?thesis
        unfolding e by (intro bexI[of _ "(k', r')"]) simp_all
    next
      case nm: False
      from Cons.IH[OF in_tl Cons.prems(2,3,4,5)] obtain k' r' where
        w: "(k', r') \<in> set es" "page_matches gid n r'" "j \<in> set (waiters r')" and
        f: "futures (snd (snd (chunk_loop es gid n ms True st))) ! j = Result (buffer r' @ ms)"
        by auto
      from f nm have
        "futures (snd (snd (chunk_loop ((k0, r0) # es) gid n ms True st))) ! j
           = Result (buffer r' @ ms)"
        unfolding chunk_loop_Cons by (simp add: case_prod_beta)
      with w show ?thesis
        unfolding e by (intro bexI[of _ "(k', r')"]) simp_all
    qed
  qed
qed

lemma fold_od_del:
  "fold (\<lambda>key d. od_del d key) ks d = filter (\<lambda>(k, v). k \<notin> set ks) d"
proof (induction ks arbitrary: d)
  case Nil
  then show ?case by simp
next
  case (Cons a ks)
  have "filter (\<lambda>(k, v). k \<notin> set ks) (od_del d a) = filter (\<lambda>(k, v). k \<notin> set (a # ks)) d"
    unfolding od_del_def by (induction d) auto
  with Cons.IH[of "od_del d a"] show ?case by simp
qed

lemma filter_keys_of_matching:
  assumes "distinct (map fst es)"
    and "\<And>x. fst (f x) = fst x" and "\<And>x. \<not> P x \<Longrightarrow> f x = x"
  shows "filter (\<lambda>(k, v). k \<notin> set (map fst (filter P es))) (map f es) = filter (\<lambda>x. \<not> P x) es"
proof -
  have key: "fst x \<notin> set (map fst (filter P es)) \<longleftrightarrow> \<not> P x" if "x \<in> set es" for x
  proof
    assume "fst x \<notin> set (map fst (filter P es))"
    with that show "\<not> P x" by force
  next
    assume np: "\<not> P x"
    show "fst x \<notin> set (map fst (filter P es))"
    proof
      assume "fst x \<in> set (map fst (filter P es))"
      then obtain y where y: "y \<in> set es" "P y" "fst y = fst x" by auto
      from assms(1) that y(1,3) have "y = x"
        by (metis eq_key_imp_eq_value prod.collapse)
      with y(2) np show False by simp
    qed
  qed
  have "filter (\<lambda>(k, v). k \<notin> set (map fst (filter P es))) (map f es)
          = map f (filter (\<lambda>x. fst x \<notin> set (map fst (filter P es))) es)"
    by (simp add: filter_map comp_def case_prod_beta assms(2))
  also have "\<dots> = map f (filter (\<lambda>x. \<not> P x) es)"
    using key by (metis (mono_tags, lifting) filter_cong)
  also have "\<dots> = filter (\<lambda>x. \<not> P x) es"
    by (intro map_idI) (simp add: assms(3))
  finally show ?thesis .
qed

lemma process_chunk_requests_unfold:
  "process_chunk_requests st gid n ms c =
     (snd (snd (chunk_loop (chunk_requests st) gid n ms c st)))
       \<lparr> chunk_requests :=
           fold (\<lambda>key d. od_del d key)
             (fst (snd (chunk_loop (chunk_requests st) gid n ms c st)))
             (fst (chunk_loop (chunk_requests st) gid n ms c st)) \<rparr>"
  by (simp add: process_chunk_requests_def case_prod_beta)

lemma process_chunk_requests_futures:
  "futures (process_chunk_requests st gid n ms c) =
     futures (snd (snd (chunk_loop (chunk_requests st) gid n ms c st)))"
  by (simp add: process_chunk_requests_unfold)

lemma process_chunk_requests_entries:
  assumes "distinct (map fst (chunk_requests st))"
  shows "chunk_requests (process_chunk_requests st gid n ms c) =
     (if c then filter (\<lambda>(k, r). \<not> page_matches gid n r) (chunk_requests st)
      else map (\<lambda>(k, r). if page_matches gid n r then (k, buffered ms r) else (k, r))
             (chunk_requests st))"
proof (cases c)
  case False
  then show ?thesis
    by (simp add: process_chunk_requests_unfold chunk_loop_entries chunk_loop_removed)
next
  case True
  let ?P = "\<lambda>(k, r). page_matches gid n r"
  let ?f = "\<lambda>(k, r). if page_matches gid n r then (k, buffered ms r) else (k, r)"
  let ?L = "chunk_loop (chunk_requests st) gid n ms c st"
  have "chunk_requests (process_chunk_requests st gid n ms c) =
          fold (\<lambda>key d. od_del d key) (fst (snd ?L)) (fst ?L)"
    by (simp add: process_chunk_requests_unfold)
  also have "\<dots> = filter (\<lambda>(k, v). k \<notin> set (map fst (filter ?P (chunk_requests st))))
                     (map ?f (chunk_requests st))"
    by (simp only: fold_od_del chunk_loop_entries chunk_loop_removed True if_True)
  also have "\<dots> = filter (\<lambda>x. \<not> ?P x) (chunk_requests st)"
    by (rule filter_keys_of_matching[OF assms]) (simp_all add: case_prod_beta)
  also have "\<dots> = filter (\<lambda>(k, r). \<not> page_matches gid n r) (chunk_requests st)"
    by (simp add: split_def)
  finally show ?thesis using True by simp
qed

lemma process_chunk_requests_no_match:
  assumes "\<forall>(k, r) \<in> set (chunk_requests st). \<not> page_matches gid n r"
  shows "process_chunk_requests st gid n ms c = st"
  by (simp add: process_chunk_requests_def chunk_loop_no_match[OF assms])

text \<open>
  C2: a page with guild id \<open>gid\<close> and nonce \<open>n\<close> (\<open>None\<close> when it carries none) is buffered
  into exactly the registered requests whose guild id is \<open>gid\<close> and whose nonce is \<open>n\<close>;
  on the final page exactly these are deregistered, and each pending waiter of such a
  request is resolved with the full buffer of a matching request it waits on. Futures
  that no matching request has as a waiter are untouched. A page that matches no
  request, one without a nonce in particular, leaves the whole state as it is, and a
  request with another nonce stays registered and unchanged.
\<close>

theorem chunk_page_matching:
  assumes "distinct (map fst (chunk_requests st))"
  shows "chunk_requests (process_chunk_requests st gid n ms c) =
           (if c then filter (\<lambda>(k, r). \<not> page_matches gid n r) (chunk_requests st)
            else map (\<lambda>(k, r). if page_matches gid n r then (k, buffered ms r) else (k, r))
                   (chunk_requests st)) \<and>
         length (futures (process_chunk_requests st gid n ms c)) = length (futures st) \<and>
         (\<not> c \<longrightarrow> futures (process_chunk_requests st gid n ms c) = futures st) \<and>
         (\<forall>j. (\<forall>(k, r) \<in> set (chunk_requests st). page_matches gid n r \<longrightarrow> j \<notin> set (waiters r)) \<longrightarrow>
              futures (process_chunk_requests st gid n ms c) ! j = futures st ! j) \<and>
         (c \<longrightarrow> (\<forall>(k, r) \<in> set (chunk_requests st). page_matches gid n r \<longrightarrow>
            (\<forall>j \<in> set (waiters r). j < length (futures st) \<and> futures st ! j = Pending \<longrightarrow>
               (\<exists>(k', r') \<in> set (chunk_requests st). page_matches gid n r' \<and> j \<in> set (waiters r') \<and>
                  futures (process_chunk_requests st gid n ms c) ! j = Result (buffer r' @ ms))))) \<and>
         ((\<forall>(k, r) \<in> set (chunk_requests st). \<not> page_matches gid n r) \<longrightarrow>
            process_chunk_requests st gid n ms c = st) \<and>
         (n = None \<longrightarrow> process_chunk_requests st gid n ms c = st) \<and>
         (\<forall>k r. (k, r) \<in> set (chunk_requests st) \<and> Some (nonce r) \<noteq> n \<longrightarrow>
            (k, r) \<in> set (chunk_requests (process_chunk_requests st gid n ms c)))"
proof (intro conjI)
  show "chunk_requests (process_chunk_requests st gid n ms c) =
           (if c then filter (\<lambda>(k, r). \<not> page_matches gid n r) (chunk_requests st)
            else map (\<lambda>(k, r). if page_matches gid n r then (k, buffered ms r) else (k, r))
                   (chunk_requests st))"
    by (rule process_chunk_requests_entries[OF assms])
  show "length (futures (process_chunk_requests st gid n ms c)) = length (futures st)"
    by (simp add: process_chunk_requests_futures chunk_loop_fields)
  show "\<not> c \<longrightarrow> futures (process_chunk_requests st gid n ms c) = futures st"
    by (simp add: process_chunk_requests_futures chunk_loop_futures_incomplete)
  show "\<forall>j. (\<forall>(k, r) \<in> set (chunk_requests st). page_matches gid n r \<longrightarrow> j \<notin> set (waiters r)) \<longrightarrow>
              futures (process_chunk_requests st gid n ms c) ! j = futures st ! j"
    by (simp add: process_chunk_requests_futures chunk_loop_futures_frame)
  show "c \<longrightarrow> (\<forall>(k, r) \<in> set (chunk_requests st). page_matches gid n r \<longrightarrow>
            (\<forall>j \<in> set (waiters r). j < length (futures st) \<and> futures st ! j = Pending \<longrightarrow>
               (\<exists>(k', r') \<in> set (chunk_requests st). page_matches gid n r' \<and> j \<in> set (waiters r') \<and>
                  futures (process_chunk_requests st gid n ms c) ! j = Result (buffer r' @ ms))))"
  proof (intro impI ballI, clarify)
    fix k r j
    assume "c" "(k, r) \<in> set (chunk_requests st)" "page_matches gid n r" "j \<in> set (waiters r)"
      "j < length (futures st)" "futures st ! j = Pending"
    from chunk_loop_futures_resolved[OF this(2-6), of ms] \<open>c\<close>
    show "\<exists>(k', r') \<in> set (chunk_requests st). page_matches gid n r' \<and> j \<in> set (waiters r') \<and>
            futures (process_chunk_requests st gid n ms c) ! j = Result (buffer r' @ ms)"
      by (simp add: process_chunk_requests_futures)
  qed
  show nm: "(\<forall>(k, r) \<in> set (chunk_requests st). \<not> page_matches gid n r) \<longrightarrow>
            process_chunk_requests st gid n ms c = st"
    using process_chunk_requests_no_match by blast
  show "n = None \<longrightarrow> process_chunk_requests st gid n ms c = st"
  proof
    assume "n = None"
    then have "\<forall>(k, r) \<in> set (chunk_requests st). \<not> page_matches gid n r"
      by (simp add: page_matches_def case_prod_beta)
    with nm show "process_chunk_requests st gid n ms c = st" by blast
  qed
  show "\<forall>k r. (k, r) \<in> set (chunk_requests st) \<and> Some (nonce r) \<noteq> n \<longrightarrow>
            (k, r) \<in> set (chunk_requests (process_chunk_requests st gid n ms c))"
  proof (intro allI impI)
    fix k r assume a: "(k, r) \<in> set (chunk_requests st) \<and> Some (nonce r) \<noteq> n"
    then have np: "\<not> page_matches gid n r" by (simp add: page_matches_def)
    show "(k, r) \<in> set (chunk_requests (process_chunk_requests st gid n ms c))"
    proof (cases c)
      case True
      with a np show ?thesis by (simp add: process_chunk_requests_entries[OF assms])
    next
      case False
      from a np have
        "(k, r) = (\<lambda>(k, r). if page_matches gid n r then (k, buffered ms r) else (k, r)) (k, r)"
        by simp
      with a have "(k, r) \<in> (\<lambda>(k, r). if page_matches gid n r then (k, buffered ms r) else (k, r))
                     ` set (chunk_requests st)"
        by (metis (no_types, lifting) image_eqI)
      with False show ?thesis by (simp add: process_chunk_requests_entries[OF assms])
    qed
  qed
qed

theorem chunk_page_matching_witness:
  "chunk_requests (process_chunk_requests
     (sample_state\<lparr>
        chunk_requests := [(NonceKey ''t1'', (ChunkRequest 7 False ''t1'')\<lparr> waiters := [0] \<rparr>),
                           (NonceKey ''t2'', (ChunkRequest 7 False ''t2'')\<lparr> waiters := [1] \<rparr>)],
        futures := [Pending, Pending] \<rparr>)
     7 (Some ''t1'') [\<lparr> member_id = 1, joined_at = None \<rparr>] True)
   = [(NonceKey ''t2'', (ChunkRequest 7 False ''t2'')\<lparr> waiters := [1] \<rparr>)] \<and>
   futures (process_chunk_requests
     (sample_state\<lparr>
        chunk_requests := [(NonceKey ''t1'', (ChunkRequest 7 False ''t1'')\<lparr> waiters := [0] \<rparr>),
                           (NonceKey ''t2'', (ChunkRequest 7 False ''t2'')\<lparr> waiters := [1] \<rparr>)],
        futures := [Pending, Pending] \<rparr>)
     7 (Some ''t1'') [\<lparr> member_id = 1, joined_at = None \<rparr>] True)
   = [Result [\<lparr> member_id = 1, joined_at = None \<rparr>], Pending]"
proof -
  let ?st = "sample_state\<lparr>
        chunk_requests := [(NonceKey ''t1'', (ChunkRequest 7 False ''t1'')\<lparr> waiters := [0] \<rparr>),
                           (NonceKey ''t2'', (ChunkRequest 7 False ''t2'')\<lparr> waiters := [1] \<rparr>)],
        futures := [Pending, Pending] \<rparr>"
  have d: "distinct (map fst (chunk_requests ?st))" by simp
  have 1: "chunk_requests (process_chunk_requests ?st 7 (Some ''t1'')
             [\<lparr> member_id = 1, joined_at = None \<rparr>] True)
           = [(NonceKey ''t2'', (ChunkRequest 7 False ''t2'')\<lparr> waiters := [1] \<rparr>)]"
    using chunk_page_matching[OF d, of 7 "Some ''t1''" "[\<lparr> member_id = 1, joined_at = None \<rparr>]" True]
    by (simp add: page_matches_def ChunkRequest_def)
  have 2: "futures (process_chunk_requests ?st 7 (Some ''t1'')
             [\<lparr> member_id = 1, joined_at = None \<rparr>] True)
           = [Result [\<lparr> member_id = 1, joined_at = None \<rparr>], Pending]"
    by (simp add: process_chunk_requests_def add_members_def done_request_def set_result_def
        ChunkRequest_def Let_def)
  from 1 2 show ?thesis by simp
qed

subsection \<open>Timeout of an ad-hoc query\<close>

lemma query_members_start_eq:
  "query_members_start st g cache n = (length (futures st), query_waiting st g cache n)"
  by (simp add: query_members_start_def query_waiting_def create_future_def Let_def)

lemma query_members_pending:
  assumes "futures (fold process_page pages (query_waiting st g cache n)) ! length (futures st) = Pending"
  shows "query_members st g cache True n pages =
     (let fut = length (futures st);
          st5 = fold process_page pages (query_waiting st g cache n)
      in (Inl TimeoutError,
          log_warning
            (st5\<lparr> futures := cancel_future (futures st5) fut,
                  chunk_requests :=
                    update_request (chunk_requests st5) (NonceKey n)
                      (\<lambda>r. r\<lparr> waiters := remove1 fut (waiters r) \<rparr>) \<rparr>)
            ''Timed out waiting for chunks''))"
  using assms by (simp add: query_members_def query_members_start_eq Let_def)

lemma update_request_keys:
  "map fst (update_request d key f) = map fst d"
  by (induction d) (auto simp: update_request_def)

lemma update_request_map_of:
  "map_of (update_request d key f) k =
     map_option (\<lambda>r. if k = key then f r else r) (map_of d k)"
  by (induction d) (auto simp: update_request_def)

lemma update_request_mem_other:
  "k \<noteq> key \<Longrightarrow> (k, r) \<in> set (update_request d key f) \<longleftrightarrow> (k, r) \<in> set d"
  by (induction d) (auto simp: update_request_def split: if_splits)

lemma od_set_mem_other:
  "k' \<noteq> k \<Longrightarrow> (k', v') \<in> set (od_set d k v) \<longleftrightarrow> (k', v') \<in> set d"
  by (induction d) (auto split: if_splits)

lemma od_set_mem_key:
  "(k, v) \<in> set (od_set d k v)"
  by (induction d) auto

lemma od_set_distinct:
  "distinct (map fst d) \<Longrightarrow> distinct (map fst (od_set d k v))"
  by (simp add: od_set_keys)

lemma awaiting_start:
  assumes "requests_wf st"
  shows "awaiting (guild_id g) n (length (futures st)) (query_waiting st g cache n)"
proof -
  let ?key = "NonceKey n"
  let ?fut = "length (futures st)"
  let ?d = "od_set (chunk_requests st) ?key (ChunkRequest (guild_id g) cache n)"
  let ?f = "\<lambda>r. r\<lparr> waiters := waiters r @ [?fut] \<rparr>"
  from assms have d: "distinct (map fst (chunk_requests st))" and
    w: "\<forall>(k, r) \<in> set (chunk_requests st). \<forall>j \<in> set (waiters r). j < ?fut"
    by (simp_all add: requests_wf_def)
  have cr: "chunk_requests (query_waiting st g cache n) = update_request ?d ?key ?f"
    and fs: "futures (query_waiting st g cache n) = futures st @ [Pending]"
    by (simp_all add: query_waiting_def)
  have 1: "distinct (map fst (update_request ?d ?key ?f))"
    using d by (simp add: update_request_keys od_set_distinct)
  have 2: "map_of (update_request ?d ?key ?f) ?key = Some (?f (ChunkRequest (guild_id g) cache n))"
    by (simp add: update_request_map_of od_set_map_of)
  have 3: "\<forall>(k, r) \<in> set (update_request ?d ?key ?f). k \<noteq> ?key \<longrightarrow> ?fut \<notin> set (waiters r)"
  proof (clarify)
    fix k r assume "(k, r) \<in> set (update_request ?d ?key ?f)" "k \<noteq> ?key" "?fut \<in> set (waiters r)"
    then have "(k, r) \<in> set (chunk_requests st)"
      by (simp add: update_request_mem_other od_set_mem_other)
    with w \<open>?fut \<in> set (waiters r)\<close> show False by fastforce
  qed
  show ?thesis
    unfolding awaiting_def cr fs using 1 2 3
    by (simp add: ChunkRequest_def)
qed

lemma map_fst_buffered:
  "map fst (map (\<lambda>(k, r). if P r then (k, f r) else (k, r)) es) = map fst es"
  by (induction es) auto

lemma awaiting_process_page:
  assumes "awaiting gid n fut st"
    and "\<not> (page_guild_id p = gid \<and> page_nonce p = Some n \<and> page_complete p)"
  shows "awaiting gid n fut (process_page p st)"
proof -
  let ?key = "NonceKey n"
  let ?es = "chunk_requests st"
  let ?M = "page_matches (page_guild_id p) (page_nonce p)"
  let ?upd = "\<lambda>(k, r). if ?M r then (k, buffered (page_members p) r) else (k, r)"
  let ?st' = "process_chunk_requests st (page_guild_id p) (page_nonce p) (page_members p)
                (page_complete p)"
  from assms(1) obtain r where
    d: "distinct (map fst ?es)" and
    r: "map_of ?es ?key = Some r" "req_guild_id r = gid" "nonce r = n" "waiters r = [fut]" and
    l: "fut < length (futures st)" and pend: "futures st ! fut = Pending" and
    oth: "\<forall>(k, r) \<in> set ?es. k \<noteq> ?key \<longrightarrow> fut \<notin> set (waiters r)"
    unfolding awaiting_def by blast
  from r(1) have rin: "(?key, r) \<in> set ?es" by (rule map_of_SomeD)
  have uniq: "r' = r" if "(?key, r') \<in> set ?es" for r'
    using d that r(1) by (metis map_of_is_SomeI option.inject)
  have es': "chunk_requests ?st' =
      (if page_complete p then filter (\<lambda>(k, r). \<not> ?M r) ?es else map ?upd ?es)"
    by (rule process_chunk_requests_entries[OF d])
  have mr: "?M r \<longrightarrow> \<not> page_complete p"
    using assms(2) r(2,3) by (auto simp: page_matches_def)
  have d': "distinct (map fst (chunk_requests ?st'))"
  proof (cases "page_complete p")
    case True
    with es' d show ?thesis by (simp add: distinct_map_filter)
  next
    case False
    have e: "map fst (map ?upd ?es) = map fst ?es" by (rule map_fst_buffered)
    from False es' have "chunk_requests ?st' = map ?upd ?es" by simp
    then show ?thesis using d by (simp only: e)
  qed
  have ours: "\<exists>r'. (?key, r') \<in> set (chunk_requests ?st') \<and>
                 req_guild_id r' = gid \<and> nonce r' = n \<and> waiters r' = [fut]"
  proof (cases "page_complete p")
    case True
    with mr have "\<not> ?M r" by blast
    with rin True es' have "(?key, r) \<in> set (chunk_requests ?st')" by simp
    with r show ?thesis by blast
  next
    case False
    from rin have "?upd (?key, r) \<in> set (map ?upd ?es)" by (simp only: set_map) (rule imageI)
    with False es' have "?upd (?key, r) \<in> set (chunk_requests ?st')" by simp
    then have "(?key, if ?M r then buffered (page_members p) r else r) \<in> set (chunk_requests ?st')"
      by (simp split: if_splits)
    with r show ?thesis
      by (intro exI[of _ "if ?M r then buffered (page_members p) r else r"])
         (simp add: waiters_buffered)
  qed
  then obtain r' where
    r': "(?key, r') \<in> set (chunk_requests ?st')" "req_guild_id r' = gid" "nonce r' = n"
        "waiters r' = [fut]"
    by blast
  from map_of_is_SomeI[OF d' r'(1)] have m': "map_of (chunk_requests ?st') ?key = Some r'" .
  have l': "length (futures ?st') = length (futures st)"
    by (simp add: process_chunk_requests_futures chunk_loop_fields)
  have pend': "futures ?st' ! fut = Pending"
  proof (cases "page_complete p")
    case False
    then show ?thesis
      using pend by (simp add: process_chunk_requests_futures chunk_loop_futures_incomplete)
  next
    case True
    have "\<forall>(k, r0) \<in> set ?es. ?M r0 \<longrightarrow> fut \<notin> set (waiters r0)"
    proof (clarify)
      fix k r0 assume a: "(k, r0) \<in> set ?es" "?M r0" "fut \<in> set (waiters r0)"
      show False
      proof (cases "k = ?key")
        case True
        with a(1) uniq have "r0 = r" by blast
        with a(2) mr \<open>page_complete p\<close> show False by blast
      next
        case False
        with oth a(1,3) show False by blast
      qed
    qed
    from chunk_loop_futures_frame[OF this] pend show ?thesis
      by (simp add: process_chunk_requests_futures)
  qed
  have oth': "\<forall>(k, r0) \<in> set (chunk_requests ?st'). k \<noteq> ?key \<longrightarrow> fut \<notin> set (waiters r0)"
  proof (clarify)
    fix k r0 assume a: "(k, r0) \<in> set (chunk_requests ?st')" "k \<noteq> ?key" "fut \<in> set (waiters r0)"
    have "\<exists>r1. (k, r1) \<in> set ?es \<and> waiters r1 = waiters r0"
    proof (cases "page_complete p")
      case True
      with a(1) es' show ?thesis by auto
    next
      case False
      with a(1) es' have "(k, r0) \<in> ?upd ` set ?es" by simp
      then obtain k1 r1 where "(k1, r1) \<in> set ?es" "(k, r0) = ?upd (k1, r1)" by auto
      then show ?thesis by (auto simp: waiters_buffered split: if_splits)
    qed
    with oth a(2,3) show False by fastforce
  qed
  show ?thesis
    unfolding awaiting_def process_page_def
    using d' m' r'(2-4) l l' pend' oth' by simp
qed

lemma awaiting_fold:
  "awaiting gid n fut st \<Longrightarrow>
   \<forall>p \<in> set pages. \<not> (page_guild_id p = gid \<and> page_nonce p = Some n \<and> page_complete p) \<Longrightarrow>
   awaiting gid n fut (fold process_page pages st)"
proof (induction pages arbitrary: st)
  case Nil
  then show ?case by simp
next
  case (Cons p pages)
  from Cons.prems have "awaiting gid n fut (process_page p st)"
    by (intro awaiting_process_page) simp_all
  with Cons.IH[of "process_page p st"] Cons.prems(2) show ?case by simp
qed

lemma cancel_future_nth:
  "i < length fs \<Longrightarrow> fs ! i = Pending \<Longrightarrow> cancel_future fs i ! i = FutureCancelled"
  by (simp add: cancel_future_def)

text \<open>
  C1, as stated, at a query that receives no page: the call ends in \<open>TimeoutError\<close> and
  the request is still registered under its nonce.
\<close>

theorem query_members_timeout_keeps_registration:
  "fst (query_members sample_state (sample_guild 7) True True ''n1'' []) = Inl TimeoutError \<and>
   map_of (chunk_requests (snd (query_members sample_state (sample_guild 7) True True ''n1'' [])))
     (NonceKey ''n1'')
   = Some \<lparr> req_guild_id = 7, req_cache = True, nonce = ''n1'', buffer = [], waiters = [] \<rparr>"
  by (simp add: query_members_def query_members_start_def create_future_def sample_state_def
      sample_guild_def ChunkRequest_def update_request_def log_warning_def Let_def)

text \<open>
  C1 (amended): when no final page for the query's guild and nonce is processed during
  the wait, \<open>query_members\<close> ends in \<open>TimeoutError\<close>, raised again after the warning is
  logged; the future of the wait is cancelled and taken out of the request's waiters,
  and the request itself stays registered under its nonce in the chunk-request map.
\<close>

theorem query_members_timeout:
  assumes "requests_wf st"
    and "\<forall>p \<in> set pages. \<not> (page_guild_id p = guild_id g \<and> page_nonce p = Some n \<and>
                              page_complete p)"
  shows "fst (query_members st g cache True n pages) = Inl TimeoutError \<and>
         (\<exists>r. map_of (chunk_requests (snd (query_members st g cache True n pages))) (NonceKey n)
                 = Some r \<and>
              req_guild_id r = guild_id g \<and> nonce r = n \<and> waiters r = []) \<and>
         futures (snd (query_members st g cache True n pages)) ! length (futures st)
           = FutureCancelled \<and>
         last (trace (snd (query_members st g cache True n pages)))
           = LogWarning ''Timed out waiting for chunks''"
proof -
  let ?fut = "length (futures st)"
  let ?st5 = "fold process_page pages (query_waiting st g cache n)"
  from awaiting_fold[OF awaiting_start[OF assms(1)] assms(2)]
  have a: "awaiting (guild_id g) n ?fut ?st5" .
  then obtain r where
    r: "map_of (chunk_requests ?st5) (NonceKey n) = Some r" "req_guild_id r = guild_id g"
       "nonce r = n" "waiters r = [?fut]" and
    l: "?fut < length (futures ?st5)" and pend: "futures ?st5 ! ?fut = Pending"
    unfolding awaiting_def by blast
  have q: "query_members st g cache True n pages =
     (Inl TimeoutError,
      log_warning
        (?st5\<lparr> futures := cancel_future (futures ?st5) ?fut,
                chunk_requests :=
                  update_request (chunk_requests ?st5) (NonceKey n)
                    (\<lambda>r. r\<lparr> waiters := remove1 ?fut (waiters r) \<rparr>) \<rparr>)
        ''Timed out waiting for chunks'')"
    using query_members_pending[OF pend] by (simp add: Let_def)
  have m: "map_of (chunk_requests (snd (query_members st g cache True n pages))) (NonceKey n)
             = Some (r\<lparr> waiters := remove1 ?fut (waiters r) \<rparr>)"
    unfolding q by (simp add: log_warning_def update_request_map_of r(1))
  have f: "futures (snd (query_members st g cache True n pages)) ! ?fut = FutureCancelled"
    unfolding q using cancel_future_nth[OF l pend] by (simp add: log_warning_def)
  have t: "last (trace (snd (query_members st g cache True n pages)))
             = LogWarning ''Timed out waiting for chunks''"
    unfolding q by (simp add: log_warning_def)
  from q m f t r show ?thesis by simp
qed

theorem query_members_timeout_witness:
  "fst (query_members sample_state (sample_guild 7) True True ''n1''
          [\<lparr> page_guild_id = 7, page_nonce = Some ''n1'',
             page_members = [\<lparr> member_id = 1, joined_at = None \<rparr>], page_complete = False \<rparr>])
     = Inl TimeoutError \<and>
   futures (snd (query_members sample_state (sample_guild 7) True True ''n1''
          [\<lparr> page_guild_id = 7, page_nonce = Some ''n1'',
             page_members = [\<lparr> member_id = 1, joined_at = None \<rparr>], page_complete = False \<rparr>]))
     ! 0 = FutureCancelled"
proof -
  have 1: "requests_wf sample_state" by (simp add: requests_wf_def sample_state_def)
  have 2: "\<forall>p \<in> set [\<lparr> page_guild_id = 7, page_nonce = Some ''n1'',
             page_members = [\<lparr> member_id = 1, joined_at = None \<rparr>], page_complete = False \<rparr>].
            \<not> (page_guild_id p = guild_id (sample_guild 7) \<and> page_nonce p = Some ''n1'' \<and>
               page_complete p)"
    by simp
  have 3: "length (futures sample_state) = 0" by (simp add: sample_state_def)
  from query_members_timeout[OF 1 2, of True] 3 show ?thesis by simp
qed

end
